theory Spec2Isabelle
  imports Main "HOL-Library.Word" "HOL-Library.AList"
begin

section \<open>The target AST node\<close>

text \<open>
  The lowering engine of \<^verbatim>\<open>UhdmAst.cc\<close> works on the nodes of the synthesis tool's AST
  (\<^verbatim>\<open>AST::AstNode\<close>). Only the members the modelled functions read or write are kept.
  A node that the C++ code reaches through a pointer is a value here; functions that
  mutate a node return the new node.
\<close>

datatype AstNodeType =
    AST_NONE | AST_DESIGN | AST_MODULE | AST_PACKAGE | AST_INTERFACE
  | AST_WIRE | AST_MEMORY | AST_PARAMETER | AST_LOCALPARAM | AST_PARASET
  | AST_TYPEDEF | AST_ENUM | AST_ENUM_ITEM | AST_STRUCT | AST_UNION | AST_STRUCT_ITEM
  | AST_WIRETYPE | AST_RANGE | AST_CONSTANT | AST_REALVALUE | AST_IDENTIFIER | AST_DOT
  | AST_ADD | AST_SUB | AST_MUL
  | AST_FCALL | AST_TCALL | AST_CELL | AST_CELLTYPE | AST_ARGUMENT
  | AST_INITIAL | AST_BLOCK | AST_ALWAYS | AST_ASSIGN

datatype AstNode = AstNode
  (type: AstNodeType)
  (str: string)
  (children: "AstNode list")
  (attributes: "(string \<times> AstNode) list")
  (id2ast: "AstNode option")
  (bits: "bool list")
  (is_input: bool)
  (is_output: bool)
  (is_signed: bool)
  (is_custom_type: bool)
  (range_valid: bool)
  (range_swapped: bool)
  (port_id: int)
  (range_left: int)
  (range_right: int)
  (integer: "32 word")
  (basic_prep: bool)
  (multirange_dimensions: "int list")
  (multirange_swapped: "bool list")

text \<open>Every abort of the run (\<^verbatim>\<open>log_assert\<close>, \<^verbatim>\<open>log_error\<close>) and every undefined
  step of the C++ (a null dereference, an index past the end of a vector, a signed
  overflow) is a value of this type. \<open>out_of_fuel\<close> is no behaviour of the program:
  the walk over a unit is bounded by a counter here, and this value says that the counter
  was too small.\<close>

datatype error =
    assert_failed
  | log_error
  | null_dereference
  | out_of_range
  | signed_overflow
  | out_of_fuel

definition bind :: "error + 'a \<Rightarrow> ('a \<Rightarrow> error + 'b) \<Rightarrow> error + 'b" where
  "bind m f = (case m of Inl e \<Rightarrow> Inl e | Inr x \<Rightarrow> f x)"

definition log_assert :: "bool \<Rightarrow> (error + 'a) \<Rightarrow> error + 'a" where
  "log_assert c k = (if c then k else Inl assert_failed)"

text \<open>\<^verbatim>\<open>v[i]\<close> on a \<^verbatim>\<open>std::vector\<close>.\<close>

definition at :: "'a list \<Rightarrow> nat \<Rightarrow> error + 'a" where
  "at xs i = (if i < length xs then Inr (xs ! i) else Inl out_of_range)"

text \<open>A value of C++ type \<^verbatim>\<open>int\<close>: a result outside the 32-bit range is undefined.\<close>

definition c_int :: "int \<Rightarrow> error + int" where
  "c_int x = (if - (2 ^ 31) \<le> x \<and> x < 2 ^ 31 then Inr x else Inl signed_overflow)"

subsection \<open>Field updates\<close>

definition set_type :: "AstNodeType \<Rightarrow> AstNode \<Rightarrow> AstNode" where
  "set_type v n = AstNode v (str n) (children n) (attributes n) (id2ast n) (bits n)
     (is_input n) (is_output n) (is_signed n) (is_custom_type n) (range_valid n)
     (range_swapped n) (port_id n) (range_left n) (range_right n) (integer n)
     (basic_prep n) (multirange_dimensions n) (multirange_swapped n)"

definition set_str :: "string \<Rightarrow> AstNode \<Rightarrow> AstNode" where
  "set_str v n = AstNode (type n) v (children n) (attributes n) (id2ast n) (bits n)
     (is_input n) (is_output n) (is_signed n) (is_custom_type n) (range_valid n)
     (range_swapped n) (port_id n) (range_left n) (range_right n) (integer n)
     (basic_prep n) (multirange_dimensions n) (multirange_swapped n)"

definition set_children :: "AstNode list \<Rightarrow> AstNode \<Rightarrow> AstNode" where
  "set_children v n = AstNode (type n) (str n) v (attributes n) (id2ast n) (bits n)
     (is_input n) (is_output n) (is_signed n) (is_custom_type n) (range_valid n)
     (range_swapped n) (port_id n) (range_left n) (range_right n) (integer n)
     (basic_prep n) (multirange_dimensions n) (multirange_swapped n)"

definition set_attributes :: "(string \<times> AstNode) list \<Rightarrow> AstNode \<Rightarrow> AstNode" where
  "set_attributes v n = AstNode (type n) (str n) (children n) v (id2ast n) (bits n)
     (is_input n) (is_output n) (is_signed n) (is_custom_type n) (range_valid n)
     (range_swapped n) (port_id n) (range_left n) (range_right n) (integer n)
     (basic_prep n) (multirange_dimensions n) (multirange_swapped n)"

definition set_id2ast :: "AstNode option \<Rightarrow> AstNode \<Rightarrow> AstNode" where
  "set_id2ast v n = AstNode (type n) (str n) (children n) (attributes n) v (bits n)
     (is_input n) (is_output n) (is_signed n) (is_custom_type n) (range_valid n)
     (range_swapped n) (port_id n) (range_left n) (range_right n) (integer n)
     (basic_prep n) (multirange_dimensions n) (multirange_swapped n)"

definition set_ports :: "bool \<Rightarrow> bool \<Rightarrow> int \<Rightarrow> AstNode \<Rightarrow> AstNode" where
  "set_ports i_in i_out pid n = AstNode (type n) (str n) (children n) (attributes n)
     (id2ast n) (bits n) i_in i_out (is_signed n) (is_custom_type n) (range_valid n)
     (range_swapped n) pid (range_left n) (range_right n) (integer n)
     (basic_prep n) (multirange_dimensions n) (multirange_swapped n)"

definition set_is_custom_type :: "bool \<Rightarrow> AstNode \<Rightarrow> AstNode" where
  "set_is_custom_type v n = AstNode (type n) (str n) (children n) (attributes n)
     (id2ast n) (bits n) (is_input n) (is_output n) (is_signed n) v (range_valid n)
     (range_swapped n) (port_id n) (range_left n) (range_right n) (integer n)
     (basic_prep n) (multirange_dimensions n) (multirange_swapped n)"

definition set_basic_prep :: "bool \<Rightarrow> AstNode \<Rightarrow> AstNode" where
  "set_basic_prep v n = AstNode (type n) (str n) (children n) (attributes n)
     (id2ast n) (bits n) (is_input n) (is_output n) (is_signed n) (is_custom_type n)
     (range_valid n) (range_swapped n) (port_id n) (range_left n) (range_right n)
     (integer n) v (multirange_dimensions n) (multirange_swapped n)"

definition set_multirange :: "int list \<Rightarrow> bool list \<Rightarrow> AstNode \<Rightarrow> AstNode" where
  "set_multirange dims sw n = AstNode (type n) (str n) (children n) (attributes n)
     (id2ast n) (bits n) (is_input n) (is_output n) (is_signed n) (is_custom_type n)
     (range_valid n) (range_swapped n) (port_id n) (range_left n) (range_right n)
     (integer n) (basic_prep n) dims sw"

lemmas set_defs = set_type_def set_str_def set_children_def set_attributes_def
  set_id2ast_def set_ports_def set_is_custom_type_def set_basic_prep_def set_multirange_def

subsection \<open>Constructors\<close>

text \<open>\<^verbatim>\<open>new AST::AstNode(type, child1, child2)\<close>: the members take the defaults of the
  node's constructor.\<close>

definition new_AstNode :: "AstNodeType \<Rightarrow> AstNode list \<Rightarrow> AstNode" where
  "new_AstNode t cs = AstNode t [] cs [] None [] False False False False False False
     0 (- 1) 0 0 False [] []"

text \<open>\<^verbatim>\<open>AST::AstNode::mkconst_int(v, is_signed, width)\<close> takes its value as
  \<^verbatim>\<open>uint32_t\<close> and keeps the low \<open>width\<close> bits.\<close>

definition mkconst_int :: "int \<Rightarrow> bool \<Rightarrow> nat \<Rightarrow> AstNode" where
  "mkconst_int v sg width = AstNode AST_CONSTANT [] [] [] None
     (map (bit (word_of_int v :: 32 word)) [0 ..< width])
     False False sg False True False
     0 (int width - 1) 0 (word_of_int v) False [] []"

text \<open>\<^verbatim>\<open>AST::AstNode::mkconst_str(str)\<close>: a constant of eight bits per character, the
  last character in the lowest bits, with the low 32 bits as its \<^verbatim>\<open>integer\<close>, a valid
  range over all the bits, and the string as its name.\<close>

definition mkconst_str :: "string \<Rightarrow> AstNode" where
  "mkconst_str s =
     (let data = concat (map (\<lambda>ch. map (bit (of_char ch :: nat)) [0 ..< 8]) (rev s))
      in AstNode AST_CONSTANT s [] [] None data
           False False False False True False
           0 (int (length data) - 1) 0 (horner_sum of_bool 2 (take 32 data)) False [] [])"

definition make_range :: "int \<Rightarrow> int \<Rightarrow> bool \<Rightarrow> AstNode" where
  "make_range left right sg = AstNode AST_RANGE []
     [mkconst_int left True 32, mkconst_int right True 32] [] None []
     False False sg False True False
     0 left right 0 False [] []"

subsection \<open>Attributes\<close>

text \<open>\<^verbatim>\<open>attributes\<close> is a \<^verbatim>\<open>std::map\<close> from identifiers to nodes.\<close>

definition attr_count :: "AstNode \<Rightarrow> string \<Rightarrow> bool" where
  "attr_count n k = (map_of (attributes n) k \<noteq> None)"

definition attr_set :: "string \<Rightarrow> AstNode \<Rightarrow> AstNode \<Rightarrow> AstNode" where
  "attr_set k v n = set_attributes (AList.update k v (attributes n)) n"

definition attr_erase :: "string \<Rightarrow> AstNode \<Rightarrow> AstNode" where
  "attr_erase k n = set_attributes (AList.delete k (attributes n)) n"

text \<open>The ranges a declaration carries under an attribute:
  \<^verbatim>\<open>attributes.count(id) ? attributes[id]->children : std::vector<AstNode*>()\<close>.\<close>

definition attr_children :: "AstNode \<Rightarrow> string \<Rightarrow> AstNode list" where
  "attr_children n k = (case map_of (attributes n) k of None \<Rightarrow> [] | Some a \<Rightarrow> children a)"

abbreviation ID_packed_ranges :: string where "ID_packed_ranges \<equiv> CHR 0x5C # ''packed_ranges''"
abbreviation ID_unpacked_ranges :: string where "ID_unpacked_ranges \<equiv> CHR 0x5C # ''unpacked_ranges''"
abbreviation ID_wiretype :: string where "ID_wiretype \<equiv> CHR 0x5C # ''wiretype''"
abbreviation ID_force_convert :: string where "ID_force_convert \<equiv> CHR 0x5C # ''force_convert''"
abbreviation ID_partial :: string where "ID_partial \<equiv> CHR 0x5C # ''partial''"
abbreviation ID_whitebox :: string where "ID_whitebox \<equiv> CHR 0x5C # ''whitebox''"
abbreviation ID_keep :: string where "ID_keep \<equiv> CHR 0x5C # ''keep''"


section \<open>Ambient state and the target's simplifier\<close>

text \<open>\<^verbatim>\<open>AST_INTERNAL::current_scope\<close> and \<^verbatim>\<open>AST_INTERNAL::current_ast_mod\<close>: the
  symbol scope table and the current elaboration target.\<close>

record AST_INTERNAL =
  current_scope :: "string \<rightharpoonup> AstNode"
  current_ast_mod :: "AstNode option"

text \<open>
  The target AST's own simplifier is not part of this repository. The call
  \<^verbatim>\<open>while (n->simplify(true, false, false, 1, -1, false, false)) {}\<close> is a parameter
  \<open>simp\<close> of the functions that make it: it maps the ambient state and a node to the
  node the simplifier leaves.
\<close>

type_synonym simplifier = "AST_INTERNAL \<Rightarrow> AstNode \<Rightarrow> AstNode"

text \<open>
  Modelled from the spec: the value to which the target's simplifier reduces an
  expression the engine has built (``whenever it needs a fully reduced constant'').
  Constants carry their 32-bit value, read as signed or unsigned by their flag;
  identifiers take their value from \<open>env\<close>; the operators are those of the integers.
\<close>

fun eval :: "(string \<Rightarrow> int) \<Rightarrow> AstNode \<Rightarrow> int option" where
  "eval env (AstNode t s cs a i b ii io sg ct rv rs p rl rr ig bp md ms) =
     (if t = AST_CONSTANT then Some (if sg then sint ig else uint ig)
      else if t = AST_IDENTIFIER then Some (env s)
      else (case cs of
          [x, y] \<Rightarrow>
            (case (eval env x, eval env y) of
               (Some u, Some v) \<Rightarrow>
                 if t = AST_ADD then Some (u + v)
                 else if t = AST_SUB then Some (u - v)
                 else if t = AST_MUL then Some (u * v)
                 else None
             | _ \<Rightarrow> None)
        | _ \<Rightarrow> None))"

section \<open>Range flattening\<close>

lemma bind_cong [fundef_cong]:
  "m = m' \<Longrightarrow> (\<And>x. m' = Inr x \<Longrightarrow> f x = f' x) \<Longrightarrow> bind m f = bind m' f'"
  by (auto simp: bind_def split: sum.splits)

lemma log_assert_cong [fundef_cong]:
  "c = c' \<Longrightarrow> (c' \<Longrightarrow> k = k') \<Longrightarrow> log_assert c k = log_assert c' k'"
  by (auto simp: log_assert_def)

text \<open>\<^verbatim>\<open>v[k]\<close> where the index was computed in \<^verbatim>\<open>size_t\<close>: a negative \<open>k\<close> has
  wrapped around and is past the end.\<close>

definition at_int :: "'a list \<Rightarrow> int \<Rightarrow> error + 'a" where
  "at_int xs k = (if 0 \<le> k \<and> k < int (length xs) then Inr (xs ! nat k) else Inl out_of_range)"

definition scope_at :: "AST_INTERNAL \<Rightarrow> string \<Rightarrow> error + AstNode" where
  "scope_at g name = (case current_scope g name of None \<Rightarrow> Inl null_dereference | Some n \<Rightarrow> Inr n)"

definition add_multirange_wire ::
    "AstNode \<Rightarrow> AstNode list \<Rightarrow> AstNode list \<Rightarrow> bool \<Rightarrow> AstNode" where
  "add_multirange_wire node packed_ranges unpacked_ranges reverse =
     (let node = attr_set ID_packed_ranges
            (set_children (if reverse then rev packed_ranges else packed_ranges)
               (mkconst_int 1 False 1)) node;
          node = attr_set ID_unpacked_ranges
            (set_children (if reverse then rev unpacked_ranges else unpacked_ranges)
               (mkconst_int 1 False 1)) node
      in node)"

text \<open>
  \<^verbatim>\<open>add_multirange_attribute\<close> returns the wire with its tables extended, the ranges as
  the loop leaves them (they are the nodes under the wire's attribute, changed in
  place) and the product of the widths, a \<^verbatim>\<open>size_t\<close>. \<^verbatim>\<open>integer\<close> is a
  \<^verbatim>\<open>uint32_t\<close>, so \<^verbatim>\<open>min\<close> and \<^verbatim>\<open>max\<close> compare unsigned and the table, a vector of
  \<^verbatim>\<open>int\<close>, reads the results back as signed.
\<close>

fun add_multirange_attribute ::
    "simplifier \<Rightarrow> AST_INTERNAL \<Rightarrow> AstNode \<Rightarrow> AstNode list
      \<Rightarrow> error + (AstNode \<times> AstNode list \<times> 64 word)" where
  "add_multirange_attribute simp g wire_node [] = Inr (wire_node, [], 1)"
| "add_multirange_attribute simp g wire_node (r # ranges) =
     log_assert (current_ast_mod g \<noteq> None)
       (let r = (if length (children r) = 1
                 then set_children (children r @ [hd (children r)]) r else r);
            r = simp g r
        in bind (at (children r) 0) (\<lambda>c0.
           log_assert (type c0 = AST_CONSTANT)
          (bind (at (children r) 1) (\<lambda>c1.
           log_assert (type c1 = AST_CONSTANT)
          (let lo = min (integer c0) (integer c1);
               hi = max (integer c0) (integer c1);
               wire_node = set_multirange
                  (multirange_dimensions wire_node @ [sint lo, sint (hi - lo + 1)])
                  (multirange_swapped wire_node @ [range_swapped r]) wire_node
           in bind (add_multirange_attribute simp g wire_node ranges) (\<lambda>(w, rs, size).
                Inr (w, r # rs, word_of_int (sint (hi - lo + 1)) * size)))))))"

text \<open>The element sizes of \<^verbatim>\<open>convert_range\<close>: the loop over the pairs of the
  dimension table, in \<^verbatim>\<open>int\<close>.\<close>

fun elem_sizes :: "int \<Rightarrow> int list \<Rightarrow> error + int list" where
  "elem_sizes elem_size (lo # w # dims) =
     bind (c_int (w - lo)) (\<lambda>d.
     bind (c_int (elem_size * d)) (\<lambda>e.
     bind (elem_sizes e dims) (\<lambda>es. Inr (e # es))))"
| "elem_sizes elem_size dims = Inr []"

definition single_elem_sizes :: "int list \<Rightarrow> error + int list" where
  "single_elem_sizes dims = bind (elem_sizes 1 dims) (\<lambda>es. Inr (rev (1 # es)))"

function convert_range ::
    "AST_INTERNAL \<Rightarrow> AstNode \<Rightarrow> AstNode list \<Rightarrow> AstNode list \<Rightarrow> nat \<Rightarrow> error + AstNode" where
  "convert_range g id_node packed_ranges unpacked_ranges i =
     log_assert (current_ast_mod g \<noteq> None)
    (log_assert (current_scope g (str id_node) \<noteq> None)
    (bind (scope_at g (str id_node)) (\<lambda>wire_node.
     log_assert (multirange_dimensions wire_node \<noteq> [])
    (bind (single_elem_sizes (multirange_dimensions wire_node)) (\<lambda>single_elem_size.
     log_assert (i < length unpacked_ranges + length packed_ranges)
    (log_assert (children id_node \<noteq> [])
    (bind (if int i < int (length (children id_node)) - 1
           then bind (convert_range g id_node packed_ranges unpacked_ranges (i + 1))
                  (\<lambda>r. Inr (Some r))
           else Inr None) (\<lambda>result.
     if children id_node = [] \<and> i = 0 then
       bind (at single_elem_size i) (\<lambda>s.
       bind (c_int (s - 1)) (\<lambda>l. Inr (make_range l 0 False)))
     else
       bind (at (children id_node) i) (\<lambda>sel.
       bind (at (children sel) 0) (\<lambda>sel0.
       bind (if length (children sel) = 2
             then Inr (sel0, children sel ! 1) else Inr (sel0, sel0)) (\<lambda>(range_left, range_right).
       bind (if multirange_swapped wire_node \<noteq> [] then
               bind (at_int (multirange_swapped wire_node)
                       (int (length (multirange_swapped wire_node)) - int i - 1)) (\<lambda>is_swapped.
               if is_swapped then
                 bind (at_int (multirange_dimensions wire_node)
                         (int (length (multirange_dimensions wire_node)) - int i * 2 - 1)) (\<lambda>dl.
                 bind (at_int (multirange_dimensions wire_node)
                         (int (length (multirange_dimensions wire_node)) - int i * 2 - 2)) (\<lambda>dr.
                 bind (c_int (dl - dr)) (\<lambda>elem_size.
                 bind (c_int (elem_size - 1)) (\<lambda>e1.
                 Inr (new_AstNode AST_SUB [mkconst_int e1 False 32, range_left],
                      new_AstNode AST_SUB [mkconst_int e1 False 32, range_right])))))
               else Inr (range_left, range_right))
             else Inr (range_left, range_right)) (\<lambda>(range_left, range_right).
       bind (at single_elem_size (i + 1)) (\<lambda>s.
       let range_left = new_AstNode AST_SUB
              [new_AstNode AST_MUL
                 [new_AstNode AST_ADD [range_left, mkconst_int 1 False 32],
                  mkconst_int s False 32],
               mkconst_int 1 False 32];
           range_right = new_AstNode AST_MUL [range_right, mkconst_int s False 32]
       in (case result of
             Some res \<Rightarrow>
               bind (at (children res) 1) (\<lambda>res1.
               bind (at (children res) 0) (\<lambda>res0.
               let range_right = new_AstNode AST_ADD [range_right, res1];
                   range_left = new_AstNode AST_SUB
                     [new_AstNode AST_ADD [range_right, res0], res1]
               in Inr (new_AstNode AST_RANGE [range_left, range_right])))
           | None \<Rightarrow> Inr (new_AstNode AST_RANGE [range_left, range_right])))))))))))))))"
  by pat_completeness auto
termination
  by (relation "measure (\<lambda>(g, id_node, p, u, i). length (children id_node) - i)") auto


definition resolve_wiretype :: "simplifier \<Rightarrow> AST_INTERNAL \<Rightarrow> AstNode \<Rightarrow> error + AstNode" where
  "resolve_wiretype simp g wire_node =
     (let packed_ranges = attr_children wire_node ID_packed_ranges;
          unpacked_ranges = attr_children wire_node ID_unpacked_ranges
      in bind (if children wire_node \<noteq> [] \<and> type (hd (children wire_node)) = AST_WIRETYPE
               then log_assert (current_scope g (str (hd (children wire_node))) \<noteq> None)
                      (bind (scope_at g (str (hd (children wire_node)))) (\<lambda>n. Inr (Some n)))
               else Inr None) (\<lambda>wiretype_ast.
         let wire_node = simp g wire_node
         in bind (case (wiretype_ast, map_of (attributes wire_node) ID_wiretype) of
                    (Some ta, Some wt) \<Rightarrow>
                      log_assert (type ta = AST_TYPEDEF)
                        (bind (at (children ta) 0) (\<lambda>c.
                           Inr (attr_set ID_wiretype (set_id2ast (Some c) wt) wire_node)))
                  | _ \<Rightarrow> Inr wire_node) (\<lambda>wire_node.
            bind (at (children wire_node) 0) (\<lambda>c0.
            if type c0 = AST_RANGE \<and> multirange_dimensions wire_node = [] then
              (let packed_ranges = packed_ranges @ [c0];
                   wire_node = set_children [] wire_node;
                   wire_node = attr_set ID_packed_ranges
                     (set_children (rev packed_ranges) (mkconst_int 1 False 1)) wire_node;
                   wire_node = attr_set ID_unpacked_ranges
                     (set_children unpacked_ranges (mkconst_int 1 False 1)) wire_node
               in Inr wire_node)
            else Inr wire_node))))"

definition add_force_convert_attribute :: "AstNode \<Rightarrow> int \<Rightarrow> AstNode" where
  "add_force_convert_attribute wire_node val =
     attr_set ID_force_convert (mkconst_int val True 32) wire_node"

text \<open>
  \<^verbatim>\<open>visitEachDescendantStatic\<close> calls its function on every descendant, parents before
  children. \<^verbatim>\<open>check_memories\<close> keeps pointers to the declarations it has met and
  sets attributes through them, so the descendants are a store here: the list of the
  nodes in visiting order, a pointer being a position in it. The function returns that
  list as the walk leaves it. (A node's copy of its children inside the list is not
  updated; the walk reads of a child only its name and never an attribute.)
\<close>

fun descendants :: "AstNode \<Rightarrow> AstNode list" where
  "descendants (AstNode t s cs a i b ii io sg ct rv rs p rl rr ig bp md ms) =
     concat (map (\<lambda>c. c # descendants c) cs)"

definition readmemh :: string where
  "readmemh = CHR 0x5C # ''$readmemh''"

text \<open>The three \<^verbatim>\<open>if\<close> statements of the function \<^verbatim>\<open>check_memories\<close> applies to a
  node, the node being at position \<open>k\<close> of the store.\<close>

type_synonym memories_state = "(string \<rightharpoonup> nat) \<times> AstNode list"

definition visit_readmemh :: "nat \<Rightarrow> memories_state \<Rightarrow> error + memories_state" where
  "visit_readmemh k st =
     (case st of (memories, heap) \<Rightarrow>
      if str (heap ! k) = readmemh then
        bind (at (children (heap ! k)) 1) (\<lambda>c1.
        case memories (str c1) of
          None \<Rightarrow> Inl null_dereference
        | Some m \<Rightarrow> Inr (memories, heap[m := add_force_convert_attribute (heap ! m) 0]))
      else Inr (memories, heap))"

definition visit_wire :: "nat \<Rightarrow> memories_state \<Rightarrow> error + memories_state" where
  "visit_wire k st =
     (case st of (memories, heap) \<Rightarrow>
      if type (heap ! k) = AST_WIRE then
        (let packed_ranges = attr_children (heap ! k) ID_packed_ranges;
             unpacked_ranges = attr_children (heap ! k) ID_unpacked_ranges
         in if length packed_ranges = 1 \<and> length unpacked_ranges = 1 then
              log_assert (memories (str (heap ! k)) = None)
                (Inr (memories(str (heap ! k) \<mapsto> k), heap))
            else Inr (memories, heap))
      else Inr (memories, heap))"

definition visit_identifier :: "nat \<Rightarrow> memories_state \<Rightarrow> error + memories_state" where
  "visit_identifier k st =
     (case st of (memories, heap) \<Rightarrow>
      case memories (str (heap ! k)) of
        Some m \<Rightarrow>
          if type (heap ! k) = AST_IDENTIFIER then
            (if \<not> attr_count (heap ! m) ID_force_convert \<and> children (heap ! k) = [] then
               Inr (memories, heap[m := add_force_convert_attribute (heap ! m) 1])
             else Inr (memories, heap))
          else Inr (memories, heap)
      | None \<Rightarrow> Inr (memories, heap))"

definition check_memories_visit :: "nat \<Rightarrow> memories_state \<Rightarrow> error + memories_state" where
  "check_memories_visit k st =
     bind (visit_readmemh k st) (\<lambda>st.
     bind (visit_wire k st) (\<lambda>st.
     visit_identifier k st))"

fun check_memories_walk :: "nat list \<Rightarrow> memories_state \<Rightarrow> error + memories_state" where
  "check_memories_walk [] st = Inr st"
| "check_memories_walk (k # ks) st = bind (check_memories_visit k st) (check_memories_walk ks)"

definition check_memories :: "AstNode \<Rightarrow> error + AstNode list" where
  "check_memories module_node =
     bind (check_memories_walk [0 ..< length (descendants module_node)]
             (Map.empty, descendants module_node)) (\<lambda>(memories, heap). Inr heap)"

text \<open>\<^verbatim>\<open>convert_packed_unpacked_range\<close>, the flattening of one declaration.\<close>

definition convert_node_cond :: "AstNode \<Rightarrow> AstNode list \<Rightarrow> AstNode list \<Rightarrow> bool" where
  "convert_node_cond wire_node packed_ranges unpacked_ranges =
     (length packed_ranges > 1 \<or> length unpacked_ranges > 1 \<or>
      attr_count wire_node ID_wiretype \<or>
      type wire_node = AST_PARAMETER \<or> type wire_node = AST_LOCALPARAM \<or>
      ((is_input wire_node \<or> is_output wire_node) \<and>
         (length packed_ranges > 0 \<or> length unpacked_ranges > 0)) \<or>
      (case map_of (attributes wire_node) ID_force_convert of
         None \<Rightarrow> False | Some fc \<Rightarrow> integer fc = 1))"

definition convert_packed_unpacked_range ::
    "simplifier \<Rightarrow> AST_INTERNAL \<Rightarrow> AstNode \<Rightarrow> error + AstNode" where
  "convert_packed_unpacked_range simp g wire_node =
     bind (if children wire_node \<noteq> [] \<and> type (hd (children wire_node)) = AST_WIRETYPE
           then resolve_wiretype simp g wire_node else Inr wire_node) (\<lambda>wire_node.
     let packed_ranges = attr_children wire_node ID_packed_ranges;
         unpacked_ranges = attr_children wire_node ID_unpacked_ranges
     in if packed_ranges = [] \<and> unpacked_ranges = [] then
          Inr (attr_erase ID_unpacked_ranges (attr_erase ID_packed_ranges wire_node))
        else if convert_node_cond wire_node packed_ranges unpacked_ranges then
          (if multirange_dimensions wire_node = [] then
             bind (add_multirange_attribute simp g wire_node packed_ranges)
               (\<lambda>(wire_node, packed_ranges, packed_size).
             bind (add_multirange_attribute simp g wire_node unpacked_ranges)
               (\<lambda>(wire_node, unpacked_ranges, unpacked_size).
             let size = packed_size * unpacked_size;
                 wire_node = (case map_of (attributes wire_node) ID_packed_ranges of
                     None \<Rightarrow> wire_node
                   | Some a \<Rightarrow> attr_set ID_packed_ranges (set_children packed_ranges a) wire_node);
                 wire_node = (case map_of (attributes wire_node) ID_unpacked_ranges of
                     None \<Rightarrow> wire_node
                   | Some a \<Rightarrow> attr_set ID_unpacked_ranges (set_children unpacked_ranges a) wire_node)
             in Inr (set_children
                  (children wire_node @ [make_range (sint (ucast (size - 1) :: 32 word)) 0 False])
                  wire_node)))
           else Inr wire_node)
        else
          (let ranges = packed_ranges @ unpacked_ranges;
               wire_node =
                 (if type wire_node = AST_WIRE \<and> length packed_ranges = 1 \<and>
                     length unpacked_ranges = 1 \<and> \<not> is_input wire_node \<and> \<not> is_output wire_node
                  then set_type AST_MEMORY wire_node else wire_node)
           in Inr (set_children (children wire_node @ ranges) wire_node)))"


text \<open>Small nodes the scenarios below are built from: a single-index selector
  (\<^verbatim>\<open>new AST::AstNode(AST::AST_RANGE, index)\<close> in \<^verbatim>\<open>process_bit_select\<close>), a reference
  with its selectors, and a net with the ranges \<^verbatim>\<open>add_multirange_wire\<close> stores.\<close>

definition bit_select :: "AstNode \<Rightarrow> AstNode" where
  "bit_select idx = new_AstNode AST_RANGE [idx]"

definition mk_identifier :: "string \<Rightarrow> AstNode list \<Rightarrow> AstNode" where
  "mk_identifier name sels = set_str name (new_AstNode AST_IDENTIFIER sels)"

definition wire_decl :: "string \<Rightarrow> AstNode list \<Rightarrow> AstNode list \<Rightarrow> AstNode" where
  "wire_decl name packed_ranges unpacked_ranges =
     add_multirange_wire (set_str name (new_AstNode AST_WIRE []))
       packed_ranges unpacked_ranges True"

text \<open>A range whose bounds the target's simplifier has exchanged: it leaves the larger
  bound in \<^verbatim>\<open>range_left\<close> and sets \<^verbatim>\<open>range_swapped\<close>. The children keep the bounds as
  declared.\<close>

definition swapped_range :: "int \<Rightarrow> int \<Rightarrow> AstNode" where
  "swapped_range left right = AstNode AST_RANGE []
     [mkconst_int left True 32, mkconst_int right True 32] [] None []
     False False False False True True
     0 right left 0 False [] []"

section \<open>Struct path expansion\<close>

definition backslash :: char where
  "backslash = CHR 0x5C"

text \<open>\<^verbatim>\<open>get_max_offset\<close>: the assertion, then the loop that descends to first children
  while \<^verbatim>\<open>range_left\<close> is negative. A node without children ends the descent in an
  access past the end.\<close>

fun get_max_offset_loop :: "AstNode \<Rightarrow> error + int" where
  "get_max_offset_loop (AstNode t s cs a i b ii io sg ct rv rs p rl rr ig bp md ms) =
     (if rl < 0 then (case cs of [] \<Rightarrow> Inl out_of_range | c # _ \<Rightarrow> get_max_offset_loop c)
      else Inr rl)"

definition get_max_offset :: "AstNode \<Rightarrow> error + int" where
  "get_max_offset node =
     log_assert (type node = AST_STRUCT \<or> type node = AST_UNION) (get_max_offset_loop node)"

text \<open>The parts of \<^verbatim>\<open>expand_dot\<close>: the name searched for (a leading backslash is
  dropped), the bounds of the element found, and the effect of a range selector on the
  bounds. \<^verbatim>\<open>log_error\<close> does not return.\<close>

definition search_str_of :: "AstNode \<Rightarrow> string" where
  "search_str_of search_node =
     (case str search_node of c # cs \<Rightarrow> if c = backslash then cs else c # cs | [] \<Rightarrow> [])"

definition elem_bounds :: "AstNode \<Rightarrow> error + AstNode \<times> AstNode" where
  "elem_bounds current_struct_elem =
     (if type current_struct_elem = AST_STRUCT_ITEM then
        Inr (mkconst_int (range_left current_struct_elem) True 32,
             mkconst_int (range_right current_struct_elem) True 32)
      else if type current_struct_elem = AST_STRUCT then
        (if children current_struct_elem = [] then Inl out_of_range
         else Inr (mkconst_int (range_left (hd (children current_struct_elem))) True 32,
                   mkconst_int (range_right (last (children current_struct_elem))) True 32))
      else Inl log_error)"

definition apply_struct_range ::
    "AstNode \<Rightarrow> AstNode \<Rightarrow> AstNode \<Rightarrow> AstNode \<Rightarrow> AstNode \<Rightarrow> error + AstNode \<times> AstNode" where
  "apply_struct_range current_struct_elem struct_range elem_size left right =
     log_assert (children struct_range \<noteq> [])
       (let sr = children struct_range in
        if type current_struct_elem = AST_STRUCT_ITEM then
          (if length sr = 2 then
             (let range_size = new_AstNode AST_ADD
                    [new_AstNode AST_SUB [sr ! 0, sr ! 1], mkconst_int 1 True 32];
                  right' = new_AstNode AST_ADD [right, sr ! 1];
                  left' = new_AstNode AST_ADD
                    [left, new_AstNode AST_ADD
                       [sr ! 1, new_AstNode AST_SUB [range_size, elem_size]]]
              in Inr (left', right'))
           else if length sr = 1 then
             (let right' = new_AstNode AST_ADD [right, sr ! 0] in Inr (right', right'))
           else Inl log_error)
        else if type current_struct_elem = AST_STRUCT then
          (if length sr = 2 \<and> type (sr ! 0) = AST_CONSTANT \<and>
              range_left struct_range \<noteq> range_right struct_range then
             (let right' = new_AstNode AST_ADD [right, sr ! 1];
                  range_size = new_AstNode AST_ADD
                    [new_AstNode AST_SUB [sr ! 0, sr ! 1], mkconst_int 1 True 32];
                  left' = new_AstNode AST_ADD [left, new_AstNode AST_SUB [range_size, elem_size]]
              in Inr (left', right'))
           else if length sr = 1 then
             (let mul = new_AstNode AST_MUL [elem_size, sr ! 0]
              in Inr (new_AstNode AST_ADD [left, mul], new_AstNode AST_ADD [right, mul]))
           else Inl log_error)
        else Inl log_error)"

lemma size_children_less: "size_list size (children n) < size n"
  by (cases n) simp

text \<open>\<^verbatim>\<open>expand_dot\<close> itself. \<open>expand_dot_children\<close> is its loop over the children of the
  search node, which expands a nested \<^verbatim>\<open>AST_DOT\<close> and remembers a range selector; its
  state is the pair of \<^verbatim>\<open>sub_dot\<close> and \<^verbatim>\<open>struct_range\<close>.\<close>

function expand_dot :: "AstNode \<Rightarrow> AstNode \<Rightarrow> error + AstNode"
  and expand_dot_children ::
    "AstNode \<Rightarrow> AstNode list \<Rightarrow> AstNode option \<times> AstNode option
       \<Rightarrow> error + AstNode option \<times> AstNode option" where
  "expand_dot current_struct search_node =
     (case find (\<lambda>node. str node = search_str_of search_node) (children current_struct) of
        None \<Rightarrow> Inl log_error
      | Some current_struct_elem \<Rightarrow>
          bind (elem_bounds current_struct_elem) (\<lambda>(left, right).
          let elem_size = new_AstNode AST_ADD
                [new_AstNode AST_SUB [left, right], mkconst_int 1 True 32]
          in bind (expand_dot_children current_struct_elem (children search_node) (None, None))
               (\<lambda>(sub_dot, struct_range).
             bind (case sub_dot of
                     None \<Rightarrow> Inr (left, right)
                   | Some sd \<Rightarrow> bind (at (children sd) 0) (\<lambda>l.
                               bind (at (children sd) 1) (\<lambda>r. Inr (l, r)))) (\<lambda>(left, right).
             bind (case struct_range of
                     None \<Rightarrow> Inr (left, right)
                   | Some sr \<Rightarrow> apply_struct_range current_struct_elem sr elem_size left right)
               (\<lambda>(left, right). Inr (new_AstNode AST_RANGE [left, right]))))))"
| "expand_dot_children current_struct_elem [] st = Inr st"
| "expand_dot_children current_struct_elem (c # cs) st =
     (case st of (sub_dot, struct_range) \<Rightarrow>
      bind (if type c = AST_DOT
            then log_assert (sub_dot = None)
                   (bind (expand_dot current_struct_elem c) (\<lambda>r. Inr (Some r)))
            else Inr sub_dot) (\<lambda>sub_dot.
      bind (if type c = AST_RANGE
            then log_assert (struct_range = None) (Inr (Some c))
            else Inr struct_range) (\<lambda>struct_range.
      expand_dot_children current_struct_elem cs (sub_dot, struct_range))))"
  by pat_completeness auto
termination
  by (relation "measure (\<lambda>x. case x of Inl (s, n) \<Rightarrow> size n
                                     | Inr (e, cs, st) \<Rightarrow> size_list size cs)")
     (auto simp add: size_children_less)

text \<open>\<^verbatim>\<open>convert_dot\<close>; \<open>struct_node_of\<close> is its choice of the struct definition.\<close>

definition struct_node_of :: "AstNode \<Rightarrow> error + AstNode option" where
  "struct_node_of wire_node =
     (if type wire_node = AST_STRUCT then Inr (Some wire_node)
      else (case map_of (attributes wire_node) ID_wiretype of
              Some wt \<Rightarrow> log_assert (id2ast wt \<noteq> None) (Inr (id2ast wt))
            | None \<Rightarrow> Inr None))"

definition convert_dot :: "AstNode \<Rightarrow> AstNode \<Rightarrow> AstNode \<Rightarrow> error + AstNode" where
  "convert_dot wire_node node dot =
     bind (struct_node_of wire_node) (\<lambda>struct_node.
     log_assert (struct_node \<noteq> None)
    (case struct_node of None \<Rightarrow> Inl null_dereference | Some struct_node \<Rightarrow>
     bind (expand_dot struct_node dot) (\<lambda>expanded.
     bind (at (children node) 0) (\<lambda>node0.
     if type node0 = AST_RANGE then
       bind (get_max_offset struct_node) (\<lambda>max_offset.
       bind (c_int (max_offset + 1)) (\<lambda>struct_size_int.
       log_assert (multirange_dimensions wire_node \<noteq> [])
      (bind (c_int (last (multirange_dimensions wire_node) - 1)) (\<lambda>unpacked_range.
       bind (at (children node0) 0) (\<lambda>index.
       bind (at (children expanded) 1) (\<lambda>e1.
       bind (at (children expanded) 0) (\<lambda>e0.
       let shift = new_AstNode AST_MUL
             [mkconst_int struct_size_int True 32,
              new_AstNode AST_SUB [mkconst_int unpacked_range True 32, index]]
       in Inr (set_children
                 [new_AstNode AST_ADD [e0, shift], new_AstNode AST_ADD [e1, shift]]
                 expanded))))))))
     else Inr expanded))))"


text \<open>
  Modelled from the spec: the bit layout of a struct of scalar fields. The target's
  simplifier, which is not part of this repository, computes \<^verbatim>\<open>range_left\<close> and
  \<^verbatim>\<open>range_right\<close> of every member. The spec fixes the result: the fields keep their
  declared order, ``first-declared field occupies the most-significant bits'', so a
  field of width \<open>w\<close> followed by fields of total width \<open>t\<close> has the range
  \<open>[t + w - 1 : t]\<close>. The spec gives the ranges of the members only: the struct node
  itself keeps the members of the node constructor, so its own \<^verbatim>\<open>range_left\<close> is
  \<open>-1\<close>. The members are given as (name, width) pairs in declared order.
\<close>

definition struct_item :: "string \<Rightarrow> int \<Rightarrow> int \<Rightarrow> AstNode" where
  "struct_item name left right = AstNode AST_STRUCT_ITEM name [] [] None []
     False False False False True False 0 left right 0 False [] []"

fun struct_layout :: "(string \<times> int) list \<Rightarrow> AstNode list" where
  "struct_layout [] = []"
| "struct_layout ((name, width) # members) =
     struct_item name (sum_list (map snd members) + width - 1) (sum_list (map snd members))
       # struct_layout members"

definition packed_struct :: "string \<Rightarrow> (string \<times> int) list \<Rightarrow> AstNode" where
  "packed_struct name members = set_str name (new_AstNode AST_STRUCT (struct_layout members))"

text \<open>A field-access path of one step, as \<^verbatim>\<open>process_hier_path\<close> makes it: an
  \<^verbatim>\<open>AST_DOT\<close> node named by the escaped identifier.\<close>

definition field_path :: "string \<Rightarrow> AstNode" where
  "field_path name = set_str (backslash # name) (new_AstNode AST_DOT [])"

text \<open>The struct \<open>{a:[7:0]; b:[3:0]}\<close>, and a net of four such structs whose type has
  been resolved and that has been flattened (12 bits by 4 elements).\<close>

definition ab_struct :: AstNode where
  "ab_struct = packed_struct ''s_t'' [(''a'', 8), (''b'', 4)]"

definition struct_array_decl :: AstNode where
  "struct_array_decl = set_multirange [0, 12, 0, 4] [False, False]
     (attr_set ID_wiretype (set_id2ast (Some ab_struct) (mkconst_str ''s_t''))
        (wire_decl ''s'' [make_range 11 0 False] [make_range 3 0 False]))"

section \<open>The symbol scope table and the walk over a unit\<close>

definition clear_current_scope :: "AST_INTERNAL \<Rightarrow> AST_INTERNAL" where
  "clear_current_scope g = g\<lparr>current_scope := Map.empty, current_ast_mod := None\<rparr>"

text \<open>\<^verbatim>\<open>shared.top_nodes\<close>, the registry of the top-level entities, in the order in which
  the program iterates over it. An entry can hold a null pointer.\<close>

type_synonym top_nodes = "(string \<times> AstNode option) list"

text \<open>\<^verbatim>\<open>s.substr(1)\<close> throws on the empty string.\<close>

definition substr1 :: "string \<Rightarrow> error + string" where
  "substr1 s = (case s of [] \<Rightarrow> Inl out_of_range | c # cs \<Rightarrow> Inr cs)"

definition import_object ::
    "AstNode \<Rightarrow> AstNode \<Rightarrow> (string \<rightharpoonup> AstNode) \<Rightarrow> error + (string \<rightharpoonup> AstNode)" where
  "import_object pkg ob scope =
     (if type ob = AST_TYPEDEF \<or> type ob = AST_PARAMETER \<or> type ob = AST_LOCALPARAM then
        bind (substr1 (str ob)) (\<lambda>name.
          Inr (scope(str pkg @ ''::'' @ name \<mapsto> ob, str ob \<mapsto> ob)))
      else if type ob = AST_ENUM then
        Inr (fold (\<lambda>c sc. sc(str c \<mapsto> c)) (children ob) (scope(str ob \<mapsto> ob)))
      else Inr scope)"

fun import_objects ::
    "AstNode \<Rightarrow> AstNode list \<Rightarrow> (string \<rightharpoonup> AstNode) \<Rightarrow> error + (string \<rightharpoonup> AstNode)" where
  "import_objects pkg [] scope = Inr scope"
| "import_objects pkg (ob # obs) scope =
     bind (import_object pkg ob scope) (import_objects pkg obs)"

fun import_packages ::
    "top_nodes \<Rightarrow> (string \<rightharpoonup> AstNode) \<Rightarrow> error + (string \<rightharpoonup> AstNode)" where
  "import_packages [] scope = Inr scope"
| "import_packages ((name, None) # rest) scope = Inl null_dereference"
| "import_packages ((name, Some n) # rest) scope =
     bind (if type n = AST_PACKAGE then import_objects n (children n) scope else Inr scope)
       (import_packages rest)"

definition setup_current_scope ::
    "top_nodes \<Rightarrow> AstNode option \<Rightarrow> AST_INTERNAL \<Rightarrow> error + AST_INTERNAL" where
  "setup_current_scope top_nodes current_top_node g =
     bind (import_packages top_nodes (current_scope g)) (\<lambda>scope.
     log_assert (current_top_node \<noteq> None)
       (Inr (g\<lparr>current_scope := scope, current_ast_mod := current_top_node\<rparr>)))"

text \<open>
  \<^verbatim>\<open>simplify\<close>, the walk over a unit, in three parts. \<open>simplify_dot\<close> is its beginning:
  the first \<^verbatim>\<open>AST_DOT\<close> child is expanded against the declaration in the scope table, or,
  when the name is not in the table, folded into the name. \<open>simplify_node\<close> is the
  \<^verbatim>\<open>switch\<close> at its end, and \<open>declare_node\<close> the assignment
  \<^verbatim>\<open>current_scope[node->str] = node\<close>. The scope table holds pointers into the tree; here
  it holds the nodes as they are when entered, and a declaration that is converted
  right after being entered is entered as converted. The \<^verbatim>\<open>AST_STRUCT\<close> case changes a
  declaration through the table: the table's entry is changed here, the copy of that
  declaration inside the tree is not.

  The walk recurses into the range that has replaced the children of a node, which is
  no part of the node it started from; the recursion is bounded by a counter, and
  \<open>simplify_children\<close> is the loop over the children.
\<close>

definition simplify_dot :: "AST_INTERNAL \<Rightarrow> AstNode \<Rightarrow> error + AstNode" where
  "simplify_dot g current_node =
     (case find (\<lambda>c. type c = AST_DOT) (children current_node) of
        None \<Rightarrow> Inr current_node
      | Some dot \<Rightarrow>
          (case current_scope g (str current_node) of
             None \<Rightarrow>
               bind (substr1 (str dot)) (\<lambda>field.
                 Inr (set_children [] (set_str (str current_node @ ''.'' @ field) current_node)))
           | Some wire_node \<Rightarrow>
               bind (convert_dot wire_node current_node dot) (\<lambda>expanded.
                 Inr (set_basic_prep True (set_children [expanded] current_node)))))"

definition declare_node :: "AstNode \<Rightarrow> AST_INTERNAL \<Rightarrow> AST_INTERNAL" where
  "declare_node node g = g\<lparr>current_scope := (current_scope g)(str node \<mapsto> node)\<rparr>"

definition simplify_node ::
    "simplifier \<Rightarrow> AstNode option \<Rightarrow> AstNode \<Rightarrow> AST_INTERNAL \<Rightarrow> error + AstNode \<times> AST_INTERNAL" where
  "simplify_node simp parent_node current_node g =
     (if type current_node = AST_TYPEDEF \<or> type current_node = AST_ENUM then
        Inr (current_node, declare_node current_node g)
      else if type current_node = AST_WIRE \<or> type current_node = AST_PARAMETER \<or>
              type current_node = AST_LOCALPARAM then
        bind (convert_packed_unpacked_range simp (declare_node current_node g) current_node)
          (\<lambda>current_node. Inr (current_node, declare_node current_node g))
      else if type current_node = AST_IDENTIFIER then
        (if children current_node \<noteq> [] \<and> \<not> basic_prep current_node then
           log_assert (current_ast_mod g \<noteq> None)
             (case current_scope g (str current_node) of
                None \<Rightarrow> Inr (current_node, g)
              | Some wire_node \<Rightarrow>
                  (let packed_ranges = attr_children wire_node ID_packed_ranges;
                       unpacked_ranges = attr_children wire_node ID_unpacked_ranges
                   in if (type wire_node = AST_WIRE \<or> type wire_node = AST_PARAMETER \<or>
                          type wire_node = AST_LOCALPARAM) \<and>
                         \<not> (packed_ranges = [] \<and> unpacked_ranges = []) \<and>
                         \<not> (length packed_ranges + length unpacked_ranges = 1) then
                        bind (convert_range g current_node packed_ranges unpacked_ranges 0)
                          (\<lambda>result.
                           Inr (set_children [result] (set_basic_prep True current_node), g))
                      else Inr (current_node, g)))
         else Inr (current_node, g))
      else if type current_node = AST_STRUCT then
        (if str current_node \<noteq> [] \<and>
            (case parent_node of None \<Rightarrow> False
             | Some p \<Rightarrow> type p \<noteq> AST_TYPEDEF \<and> type p \<noteq> AST_STRUCT) then
           (let current_node = simp g current_node
            in case current_scope g (str current_node) of
                 None \<Rightarrow> Inl null_dereference
               | Some wire_node \<Rightarrow>
                   Inr (current_node,
                        g\<lparr>current_scope := (current_scope g)(str current_node \<mapsto>
                           attr_set ID_wiretype
                             (set_id2ast (Some current_node) (mkconst_str (str current_node)))
                             wire_node)\<rparr>))
         else Inr (current_node, g))
      else Inr (current_node, g))"

function simplify ::
    "simplifier \<Rightarrow> nat \<Rightarrow> AstNode \<Rightarrow> AstNode option \<Rightarrow> AST_INTERNAL
       \<Rightarrow> error + AstNode \<times> AST_INTERNAL"
  and simplify_children ::
    "simplifier \<Rightarrow> nat \<Rightarrow> AstNode list \<Rightarrow> AstNode \<Rightarrow> AST_INTERNAL
       \<Rightarrow> error + AstNode list \<times> AST_INTERNAL" where
  "simplify simp 0 current_node parent_node g = Inl out_of_fuel"
| "simplify simp (Suc fuel) current_node parent_node g =
     bind (simplify_dot g current_node) (\<lambda>current_node.
     bind (simplify_children simp fuel (children current_node) current_node g) (\<lambda>(cs, g).
     simplify_node simp parent_node (set_children cs current_node) g))"
| "simplify_children simp fuel [] parent_node g = Inr ([], g)"
| "simplify_children simp fuel (c # cs) parent_node g =
     bind (simplify simp fuel c (Some parent_node) g) (\<lambda>(c, g).
     bind (simplify_children simp fuel cs parent_node g) (\<lambda>(cs, g). Inr (c # cs, g)))"
  by pat_completeness auto
termination
  by (relation "measures [\<lambda>x. case x of Inl (s, f, n, p, g) \<Rightarrow> f | Inr (s, f, cs, p, g) \<Rightarrow> f,
                          \<lambda>x. case x of Inl (s, f, n, p, g) \<Rightarrow> 0 | Inr (s, f, cs, p, g) \<Rightarrow> Suc (length cs)]")
     auto


text \<open>The tree after \<^verbatim>\<open>check_memories\<close>: every descendant takes its attributes from the
  store the walk has left, in visiting order.\<close>

function apply_heap :: "AstNode list \<Rightarrow> AstNode list \<Rightarrow> AstNode list \<times> AstNode list" where
  "apply_heap [] heap = ([], heap)"
| "apply_heap (c # cs) [] = (c # cs, [])"
| "apply_heap (c # cs) (h # heap) =
     (case apply_heap (children c) heap of (cs1, heap1) \<Rightarrow>
      case apply_heap cs heap1 of (cs2, heap2) \<Rightarrow>
        (set_children cs1 h # cs2, heap2))"
  by pat_completeness auto
termination
proof (relation "measure (\<lambda>(cs, heap). size_list size cs)", goal_cases)
  case 1 show ?case by simp
next
  case (2 c cs h heap)
  show ?case using size_children_less[of c] by simp
next
  case 3 then show ?case by simp
qed

definition check_memories_in_place :: "AstNode \<Rightarrow> error + AstNode" where
  "check_memories_in_place module_node =
     bind (check_memories module_node) (\<lambda>heap.
       Inr (set_children (fst (apply_heap (children module_node) heap)) module_node))"

text \<open>
  What \<^verbatim>\<open>process_design\<close> does with one top-level unit, the entry at position \<open>k\<close>
  of the registry: \<^verbatim>\<open>check_memories\<close>, \<^verbatim>\<open>setup_current_scope\<close>, \<^verbatim>\<open>simplify\<close>,
  \<^verbatim>\<open>clear_current_scope\<close>. The unit is changed in place, so the registry holds the
  changed unit afterwards.
\<close>

definition lower_unit ::
    "simplifier \<Rightarrow> nat \<Rightarrow> top_nodes \<Rightarrow> nat \<Rightarrow> AST_INTERNAL \<Rightarrow> error + top_nodes \<times> AST_INTERNAL" where
  "lower_unit simp fuel top_nodes k g =
     bind (at top_nodes k) (\<lambda>(name, entry).
     case entry of
       None \<Rightarrow> Inl null_dereference
     | Some node \<Rightarrow>
         bind (check_memories_in_place node) (\<lambda>node.
         bind (setup_current_scope (top_nodes[k := (name, Some node)]) (Some node) g) (\<lambda>g.
         bind (simplify simp fuel node None g) (\<lambda>(node, g).
         Inr (top_nodes[k := (name, Some node)], clear_current_scope g)))))"

text \<open>The names \<^verbatim>\<open>setup_current_scope\<close> enters for the packages of a registry.\<close>

definition import_names :: "AstNode \<Rightarrow> AstNode \<Rightarrow> string list" where
  "import_names pkg ob =
     (if type ob = AST_TYPEDEF \<or> type ob = AST_PARAMETER \<or> type ob = AST_LOCALPARAM
      then [str pkg @ ''::'' @ tl (str ob), str ob]
      else if type ob = AST_ENUM then str ob # map str (children ob)
      else [])"

definition package_import_names :: "top_nodes \<Rightarrow> string list" where
  "package_import_names top_nodes =
     concat (map (\<lambda>(name, entry). case entry of
                    None \<Rightarrow> []
                  | Some n \<Rightarrow> if type n = AST_PACKAGE
                             then concat (map (import_names n) (children n)) else [])
                 top_nodes)"

text \<open>A package \<open>P\<close> with the parameter \<open>W\<close>, a module \<open>B\<close> that declares only the
  net \<open>x\<close>, the registry holding both, and the ambient state before any unit.\<close>

definition width_param :: AstNode where
  "width_param = add_multirange_wire
     (set_str (backslash # ''W'') (new_AstNode AST_PARAMETER [mkconst_int 8 True 32])) [] [] True"

definition pkg_p :: AstNode where
  "pkg_p = set_str (backslash # ''P'') (new_AstNode AST_PACKAGE [width_param])"

definition mod_b :: AstNode where
  "mod_b = set_str (backslash # ''B'')
     (new_AstNode AST_MODULE [wire_decl (backslash # ''x'') [make_range 7 0 False] []])"

definition registry_pb :: top_nodes where
  "registry_pb = [(backslash # ''P'', Some pkg_p), (backslash # ''B'', Some mod_b)]"

definition no_scope :: AST_INTERNAL where
  "no_scope = \<lparr>current_scope = Map.empty, current_ast_mod = None\<rparr>"

text \<open>
  The words of the specification about access rewriting, to compare the code with:
  \<open>dim_table\<close> is the dimension-size table of dimensions that all start at 0, one
  (minimum, width) pair per dimension; \<open>row_major\<close> is the sum over the selectors of
  index times the product of the widths of all later dimensions; \<open>effective_index\<close>
  complements the index of a dimension marked as swapped against that dimension's width.
\<close>

definition dim_table :: "int list \<Rightarrow> int list" where
  "dim_table ws = concat (map (\<lambda>w. [0, w]) ws)"

fun row_major :: "int list \<Rightarrow> int list \<Rightarrow> int" where
  "row_major (x # xs) (w # ws) = x * prod_list ws + row_major xs ws"
| "row_major xs ws = 0"

definition effective_index :: "int list \<Rightarrow> int list \<Rightarrow> bool list \<Rightarrow> nat \<Rightarrow> int" where
  "effective_index vals ws sw k = (if sw ! k then ws ! k - 1 - vals ! k else vals ! k)"

text \<open>The ambient state in which one declaration and one access are lowered: an
  elaboration target is set, and the scope table holds what has been declared.\<close>

definition in_module :: "(string \<rightharpoonup> AstNode) \<Rightarrow> AST_INTERNAL" where
  "in_module scope = \<lparr> current_scope = scope, current_ast_mod = Some (new_AstNode AST_MODULE []) \<rparr>"

text \<open>The invariant of the walk of \<^verbatim>\<open>check_memories\<close>: it changes nothing of a node
  but its \<^verbatim>\<open>force_convert\<close> attribute. \<open>flag0\<close> says that this attribute is the
  constant 0.\<close>

definition same_but_force :: "AstNode \<Rightarrow> AstNode \<Rightarrow> bool" where
  "same_but_force a b =
     (type a = type b \<and> str a = str b \<and> children a = children b \<and>
      is_input a = is_input b \<and> is_output a = is_output b \<and>
      multirange_dimensions a = multirange_dimensions b \<and>
      multirange_swapped a = multirange_swapped b \<and>
      attr_children a ID_packed_ranges = attr_children b ID_packed_ranges \<and>
      attr_children a ID_unpacked_ranges = attr_children b ID_unpacked_ranges \<and>
      attr_count a ID_wiretype = attr_count b ID_wiretype)"

definition heap_ok :: "AstNode list \<Rightarrow> AstNode list \<Rightarrow> bool" where
  "heap_ok ds heap = (length heap = length ds \<and> (\<forall>j < length ds. same_but_force (heap ! j) (ds ! j)))"

definition flag0 :: "AstNode \<Rightarrow> bool" where
  "flag0 n = (map_of (attributes n) ID_force_convert = Some (mkconst_int 0 True 32))"

text \<open>Declarations and modules of the scenarios: a memory \<open>mem\<close> of four bytes, a net
  of one byte, a \<^verbatim>\<open>$readmemh\<close> call that loads a memory, and modules whose body declares
  the memory (as an internal net, or as an output port), loads it and then reads it as a
  whole.\<close>

definition mem_decl :: AstNode where
  "mem_decl = wire_decl ''mem'' [make_range 7 0 False] [make_range 3 0 False]"

definition byte_decl :: AstNode where
  "byte_decl = wire_decl ''b'' [make_range 7 0 False] []"

definition readmemh_call :: "string \<Rightarrow> AstNode" where
  "readmemh_call name =
     set_str readmemh (new_AstNode AST_TCALL [mkconst_str ''init.hex'', mk_identifier name []])"

definition mem_module :: AstNode where
  "mem_module = new_AstNode AST_MODULE
     [mem_decl, readmemh_call ''mem'', mk_identifier ''mem'' []]"

definition port_mem_module :: AstNode where
  "port_mem_module = new_AstNode AST_MODULE
     [set_ports False True 1 mem_decl, readmemh_call ''mem'', mk_identifier ''mem'' []]"

subsection \<open>The names a walk enters and the states it passes\<close>

text \<open>
  The names the walk over a unit can enter in the scope table. The walk enters a node
  under its name when its type is one of those below (the \<^verbatim>\<open>switch\<close> of
  \<^verbatim>\<open>simplify\<close>). The name is the node's own, or, when the node has an \<^verbatim>\<open>AST_DOT\<close>
  child and its name is not in the table, its name followed by the name of the field.
\<close>

definition declares :: "AstNodeType \<Rightarrow> bool" where
  "declares t = (t = AST_TYPEDEF \<or> t = AST_ENUM \<or> t = AST_WIRE \<or> t = AST_PARAMETER \<or>
                 t = AST_LOCALPARAM)"

definition declared_names_of :: "AstNode \<Rightarrow> string list" where
  "declared_names_of node =
     (case find (\<lambda>c. type c = AST_DOT) (children node) of
        None \<Rightarrow> [str node]
      | Some dot \<Rightarrow> [str node, str node @ ''.'' @ tl (str dot)])"

definition unit_names :: "AstNode \<Rightarrow> string list" where
  "unit_names unit =
     concat (map declared_names_of
               (filter (\<lambda>node. declares (type node)) (unit # descendants unit)))"

text \<open>The nodes of a unit: the unit and its descendants.\<close>

definition nodes_of :: "AstNode \<Rightarrow> AstNode set" where
  "nodes_of unit = set (unit # descendants unit)"

text \<open>
  The nodes the walk over a unit meets: the nodes of the unit, and the nodes that
  \<^verbatim>\<open>convert_dot\<close> builds around them (ranges, sums, differences, products and
  constants), none of which has a type that is entered in the table. \<open>U\<close> is the set
  of the nodes of the unit.
\<close>

inductive derived :: "AstNode set \<Rightarrow> AstNode \<Rightarrow> bool" for U :: "AstNode set" where
  unit_node: "t \<in> U \<Longrightarrow> derived U t"
| built: "\<not> declares (type t) \<Longrightarrow> (\<forall>c \<in> set (children t). derived U c) \<Longrightarrow> derived U t"

text \<open>
  The states of the scope table the walk passes: the state a walk starts in, the state
  it ends in, the state in which a declaration is flattened (the declaration has just
  been entered), and the states the walks over the children pass. The walk over a
  child starts in the state the walks over the children before it have left.
\<close>

inductive passes ::
  "simplifier \<Rightarrow> nat \<Rightarrow> AstNode \<Rightarrow> AstNode option \<Rightarrow> AST_INTERNAL \<Rightarrow> AST_INTERNAL \<Rightarrow> bool"
  for simp :: simplifier where
  start: "passes simp fuel current_node parent_node g g"
| finish: "simplify simp fuel current_node parent_node g = Inr (node', g') \<Longrightarrow>
     passes simp fuel current_node parent_node g g'"
| flattening: "simplify_dot g current_node = Inr node1 \<Longrightarrow>
     simplify_children simp fuel (children node1) node1 g = Inr (cs, g1) \<Longrightarrow>
     type node1 = AST_WIRE \<or> type node1 = AST_PARAMETER \<or> type node1 = AST_LOCALPARAM \<Longrightarrow>
     passes simp (Suc fuel) current_node parent_node g (declare_node (set_children cs node1) g1)"
| child: "simplify_dot g current_node = Inr node1 \<Longrightarrow>
     children node1 = before @ c # after \<Longrightarrow>
     simplify_children simp fuel before node1 g = Inr (before', g1) \<Longrightarrow>
     passes simp fuel c (Some node1) g1 g' \<Longrightarrow>
     passes simp (Suc fuel) current_node parent_node g g'"

text \<open>A module \<open>A\<close> that declares only the net \<open>y\<close>, and the registry of \<open>A\<close> and
  \<open>B\<close>.\<close>

definition mod_a :: AstNode where
  "mod_a = set_str (backslash # ''A'')
     (new_AstNode AST_MODULE [wire_decl (backslash # ''y'') [make_range 3 0 False] []])"

definition registry_ab :: top_nodes where
  "registry_ab = [(backslash # ''A'', Some mod_a), (backslash # ''B'', Some mod_b)]"


section \<open>The module registry and the instances of a module\<close>

text \<open>The type name of a module, lines 1111 to 1116: the definition name, sanitized
  (the part after the last \<^verbatim>\<open>@\<close>, behind a backslash) and without a package prefix.\<close>

definition sanitize_symbol_name :: "string \<Rightarrow> string" where
  "sanitize_symbol_name name =
     (if name \<noteq> [] then backslash # rev (takeWhile (\<lambda>c. c \<noteq> CHR ''@'') (rev name)) else name)"

fun after_separator :: "string \<Rightarrow> string option" where
  "after_separator (a # b # cs) =
     (if a = CHR '':'' \<and> b = CHR '':'' then Some cs else after_separator (b # cs))"
| "after_separator cs = None"

definition strip_package_name :: "string \<Rightarrow> string" where
  "strip_package_name name =
     (case after_separator name of Some rest \<Rightarrow> backslash # rest | None \<Rightarrow> name)"

definition module_type_name :: "string \<Rightarrow> string" where
  "module_type_name def_name = strip_package_name (sanitize_symbol_name def_name)"

text \<open>
  \<^verbatim>\<open>shared.top_nodes\<close> maps names to pointers, and specialization is about which
  entity a pointer names: the module entities live in a store, a list of nodes, a
  pointer is a position in it, and a new or cloned node is appended. The registry is
  the list of its (name, pointer) pairs; a pointer can be null.
\<close>

type_synonym registry = "(string \<times> nat option) list"

text \<open>\<^verbatim>\<open>top_nodes[name]\<close> enters a null pointer for a name that is absent.\<close>

definition reg_index :: "registry \<Rightarrow> string \<Rightarrow> registry \<times> nat option" where
  "reg_index reg name =
     (case map_of reg name of None \<Rightarrow> (reg @ [(name, None)], None) | Some p \<Rightarrow> (reg, p))"

definition reg_count :: "registry \<Rightarrow> string \<Rightarrow> bool" where
  "reg_count reg name = (map_of reg name \<noteq> None)"

definition reg_assign :: "registry \<Rightarrow> string \<Rightarrow> nat \<Rightarrow> registry" where
  "reg_assign reg name p = AList.update name (Some p) reg"

text \<open>\<^verbatim>\<open>std::to_string\<close> of an unsigned number.\<close>

fun to_string :: "nat \<Rightarrow> string" where
  "to_string n =
     (if n < 10 then [char_of (48 + n)] else to_string (n div 10) @ [char_of (48 + n mod 10)])"

declare to_string.simps [simp del]

text \<open>\<^verbatim>\<open>add_or_replace_child\<close>, lines 829 to 856: what the node that replaces an
  existing child of the same name takes over from it.\<close>

definition take_over_attribute :: "string \<Rightarrow> AstNode \<Rightarrow> AstNode \<Rightarrow> AstNode" where
  "take_over_attribute k it child =
     (case (map_of (attributes it) k, map_of (attributes child) k) of
        (Some a, Some b) \<Rightarrow> if children a \<noteq> [] \<and> children b = [] then attr_set k a child else child
      | _ \<Rightarrow> child)"

definition take_over :: "AstNode \<Rightarrow> AstNode \<Rightarrow> AstNode" where
  "take_over it child =
     (let child = (if is_input it \<or> is_output it
                   then (let child = set_ports (is_input it) (is_output it) (port_id it) child
                         in if type child = AST_MEMORY then set_type AST_WIRE child else child)
                   else child);
          child = (if children it \<noteq> [] \<and> children child = []
                   then (let child = set_children (children it) child
                         in if type child = AST_WIRE \<and>
                               (\<exists>grandchild \<in> set (children it). type grandchild = AST_WIRETYPE)
                            then set_is_custom_type True child else child)
                   else child);
          child = take_over_attribute ID_packed_ranges it child
      in take_over_attribute ID_unpacked_ranges it child)"

text \<open>Lines 884 to 898: the statements of a second \<^verbatim>\<open>initial\<close> go into the block of
  the first.\<close>

definition merge_initial :: "AstNode \<Rightarrow> AstNode \<Rightarrow> error + AstNode" where
  "merge_initial initial_node child =
     log_assert (children initial_node \<noteq> [])
    (log_assert (type (hd (children initial_node)) = AST_BLOCK)
    (log_assert (children child \<noteq> [])
    (log_assert (type (hd (children child)) = AST_BLOCK)
    (let block_node = hd (children initial_node);
         child_block_node = hd (children child);
         block_node = set_children (children block_node @ children child_block_node) block_node
     in Inr (set_children (block_node # tl (children initial_node) @ tl (children child))
               initial_node)))))"

definition add_or_replace_child :: "AstNode \<Rightarrow> AstNode \<Rightarrow> error + AstNode" where
  "add_or_replace_child parent child =
     (if str child \<noteq> [] then
        (case find (\<lambda>existing_child. str existing_child = str child) (children parent) of
           Some it \<Rightarrow>
             (let k = length (takeWhile (\<lambda>existing_child. str existing_child \<noteq> str child)
                                (children parent))
              in Inr (set_children ((children parent)[k := take_over it child]) parent))
         | None \<Rightarrow> Inr (set_children (children parent @ [child]) parent))
      else if type child = AST_INITIAL then
        (case find (\<lambda>node. type node = AST_INITIAL) (children parent) of
           Some initial_node \<Rightarrow>
             bind (merge_initial initial_node child) (\<lambda>initial_node.
               let k = length (takeWhile (\<lambda>node. type node \<noteq> AST_INITIAL) (children parent))
               in Inr (set_children ((children parent)[k := initial_node]) parent))
         | None \<Rightarrow>
             (let k = length (takeWhile (\<lambda>node. type node \<noteq> AST_ALWAYS) (children parent))
              in Inr (set_children (take k (children parent) @ child # drop k (children parent))
                        parent)))
      else Inr (set_children (children parent @ [child]) parent))"

fun add_or_replace_children :: "AstNode \<Rightarrow> AstNode list \<Rightarrow> error + AstNode" where
  "add_or_replace_children parent [] = Inr parent"
| "add_or_replace_children parent (child # rest) =
     bind (add_or_replace_child parent child) (\<lambda>parent. add_or_replace_children parent rest)"


text \<open>
  The state shared by the walkers (\<^verbatim>\<open>shared.top_nodes\<close>, the node store the pointers
  point into, and \<^verbatim>\<open>shared.current_top_node\<close>).
\<close>

record UhdmAstShared =
  shared_top_nodes :: registry
  shared_store :: "AstNode list"
  current_top_node :: "nat option"

text \<open>
  \<^verbatim>\<open>simplify_parameter(parameter, module_node)\<close> enters the declarations of the
  packages, of the current top node and of \<^verbatim>\<open>module_node\<close> in the scope table and runs
  the target's simplifier on the parameter until it reports no change. The simplifier
  is not part of this program: the call is a parameter of the model, from the shared
  state, the parameter node and the module pointer to the parameter node it leaves.
\<close>

type_synonym parameter_simplifier = "UhdmAstShared \<Rightarrow> AstNode \<Rightarrow> nat option \<Rightarrow> error + AstNode"

definition new_node :: "AstNode \<Rightarrow> UhdmAstShared \<Rightarrow> nat \<times> UhdmAstShared" where
  "new_node n shared =
     (length (shared_store shared), shared\<lparr>shared_store := shared_store shared @ [n]\<rparr>)"

definition deref :: "UhdmAstShared \<Rightarrow> nat \<Rightarrow> error + AstNode" where
  "deref shared p =
     (if p < length (shared_store shared) then Inr (shared_store shared ! p)
      else Inl null_dereference)"

definition assign_node :: "nat \<Rightarrow> AstNode \<Rightarrow> UhdmAstShared \<Rightarrow> UhdmAstShared" where
  "assign_node p n shared = shared\<lparr>shared_store := (shared_store shared)[p := n]\<rparr>"

text \<open>The text one parameter assignment adds to \<^verbatim>\<open>module_parameters\<close>
  (lines 1174 to 1178).\<close>

definition parameter_text :: "AstNode \<Rightarrow> error + string" where
  "parameter_text node =
     bind (at (children node) 0) (\<lambda>v.
       Inr (str node @ ''='' @
            (if str v \<noteq> [] then str v
             else to_string (length (bits v)) @ CHR 0x27 # ''d'' @ to_string (unat (integer v)))))"

text \<open>The first visit of the parameter assignments (lines 1163 to 1182). The nodes are
  the non-null results of the visit, in its order.\<close>

fun module_parameters_of ::
  "parameter_simplifier \<Rightarrow> UhdmAstShared \<Rightarrow> string \<Rightarrow> AstNode list \<Rightarrow> error + string" where
  "module_parameters_of simplify_parameter shared type_name [] = Inr []"
| "module_parameters_of simplify_parameter shared type_name (node # nodes) =
     (if type node = AST_PARAMETER then
        bind (at (children node) 0) (\<lambda>v.
        bind (if type v \<noteq> AST_CONSTANT \<and> reg_count (shared_top_nodes shared) type_name
              then bind (simplify_parameter shared node
                           (snd (reg_index (shared_top_nodes shared) type_name))) (\<lambda>node.
                   bind (at (children node) 0) (\<lambda>v.
                   log_assert (type v = AST_CONSTANT \<or> type v = AST_REALVALUE) (Inr node)))
              else Inr node) (\<lambda>node.
        bind (if reg_count (shared_top_nodes shared) type_name then parameter_text node
              else Inr []) (\<lambda>assignment.
        bind (module_parameters_of simplify_parameter shared type_name nodes) (\<lambda>rest.
        Inr (assignment @ rest)))))
      else module_parameters_of simplify_parameter shared type_name nodes)"

text \<open>Lines 1184 to 1190. \<^verbatim>\<open>sha1\<close> comes from a library that is not part of this
  program and is a parameter.\<close>

definition module_name_of :: "(string \<Rightarrow> string) \<Rightarrow> string \<Rightarrow> string \<Rightarrow> string" where
  "module_name_of sha1 type_name module_parameters =
     (if length module_parameters > 60 then ''$paramod$'' @ sha1 module_parameters @ type_name
      else if module_parameters \<noteq> [] then ''$paramod'' @ type_name @ module_parameters
      else type_name)"

text \<open>Lines 1191 to 1210: the entity the instance refers to. The result is the pointer
  to it and the value of \<^verbatim>\<open>cell_instance\<close>.\<close>

definition find_module ::
  "string \<Rightarrow> string \<Rightarrow> string \<Rightarrow> bool \<Rightarrow> UhdmAstShared \<Rightarrow> error + (nat \<times> bool \<times> UhdmAstShared)" where
  "find_module type_name module_name module_parameters cell_instance shared =
     (let (reg, module_node) = reg_index (shared_top_nodes shared) module_name;
          shared = shared\<lparr>shared_top_nodes := reg\<rparr>
      in bind
        (case module_node of
           Some p \<Rightarrow> Inr (p, module_name, cell_instance, shared)
         | None \<Rightarrow>
             (let (reg, module_node) = reg_index (shared_top_nodes shared) type_name;
                  shared = shared\<lparr>shared_top_nodes := reg\<rparr>;
                  (p, module_name, cell_instance, shared) =
                    (case module_node of
                       Some p \<Rightarrow> (p, module_name, cell_instance, shared)
                     | None \<Rightarrow>
                         (let (p, shared) =
                                new_node (attr_set ID_partial (mkconst_int 2 False 1)
                                            (set_str type_name (new_AstNode AST_MODULE []))) shared
                          in (p, type_name, True, shared)))
              in if module_parameters \<noteq> []
                 then bind (deref shared p) (\<lambda>n.
                        let (p, shared) = new_node n shared
                        in Inr (p, module_name, cell_instance, shared))
                 else Inr (p, module_name, cell_instance, shared)))
        (\<lambda>(p, module_name, cell_instance, shared).
           bind (deref shared p) (\<lambda>n.
           let n = set_str module_name n;
               shared = shared\<lparr>shared_top_nodes := reg_assign (shared_top_nodes shared) (str n) p\<rparr>;
               n = (if cell_instance then attr_set ID_whitebox (mkconst_int 1 False 1) n else n)
           in Inr (p, cell_instance, assign_node p n shared))))"

text \<open>The second visit of the parameter assignments (lines 1211 to 1256), one step in
  three parts. \<open>simplify_assigned\<close> is its beginning, lines 1214 to 1219: an assignment
  that is no constant is simplified when the type name is registered.\<close>

definition simplify_assigned ::
  "parameter_simplifier \<Rightarrow> string \<Rightarrow> nat \<Rightarrow> AstNode \<Rightarrow> UhdmAstShared \<Rightarrow>
   error + AstNode \<times> UhdmAstShared" where
  "simplify_assigned simplify_parameter type_name module_node node shared =
     bind (at (children node) 0) (\<lambda>v.
       if type v \<noteq> AST_CONSTANT then
         (let (reg, generic) = reg_index (shared_top_nodes shared) type_name;
              shared = shared\<lparr>shared_top_nodes := reg\<rparr>
          in if generic \<noteq> None
             then bind (simplify_parameter shared node (Some module_node)) (\<lambda>node.
                  bind (at (children node) 0) (\<lambda>v.
                  log_assert (type v = AST_CONSTANT \<or> type v = AST_REALVALUE)
                    (Inr (node, shared))))
             else Inr (node, shared))
       else Inr (node, shared))"

text \<open>What the simplification may do to an assignment: one whose value is a constant
  stays as it is.\<close>

definition simplified_from :: "AstNode \<Rightarrow> AstNode \<Rightarrow> bool" where
  "simplified_from node node' = (type (hd (children node)) = AST_CONSTANT \<longrightarrow> node' = node)"

text \<open>\<open>set_parameter\<close> is the rest of the step, lines 1221 to 1254, on the node of the
  entity: the parameter is set on the entity, or it is left to the synthesis tool as
  an \<^verbatim>\<open>AST_PARASET\<close> child of the cell (the first component of the result), or
  nothing is done.\<close>

definition set_parameter ::
  "bool \<Rightarrow> AstNode \<Rightarrow> AstNode \<Rightarrow> error + AstNode option \<times> AstNode" where
  "set_parameter cell_instance node m =
     (let paraset = Inr (Some (set_type AST_PARASET node), m);
          replace = bind (add_or_replace_child m node) (\<lambda>m. Inr (None, m))
      in (case find (\<lambda>child. (type child = AST_PARAMETER \<or> type child = AST_LOCALPARAM) \<and>
                             str child = str node \<and> type child \<noteq> AST_REALVALUE) (children m) of
            Some parent_node \<Rightarrow>
              if type parent_node = AST_PARAMETER then
                if cell_instance \<or> (children node \<noteq> [] \<and> type (hd (children node)) \<noteq> AST_CONSTANT)
                then bind (at (children node) 0) (\<lambda>v.
                     bind (at (children parent_node) 0) (\<lambda>d.
                     if integer v \<noteq> integer d \<or> str v \<noteq> str d then paraset
                     else Inr (None, m)))
                else replace
              else replace
          | None \<Rightarrow>
              if attr_count m ID_partial \<and>
                 (case map_of (attributes m) ID_partial of
                    Some a \<Rightarrow> integer a = 2 | None \<Rightarrow> False)
              then paraset else Inr (None, m)))"

definition apply_parameter ::
  "parameter_simplifier \<Rightarrow> string \<Rightarrow> nat \<Rightarrow> bool \<Rightarrow> AstNode \<Rightarrow> AstNode \<times> UhdmAstShared \<Rightarrow>
   error + AstNode \<times> UhdmAstShared" where
  "apply_parameter simplify_parameter type_name module_node cell_instance node = (\<lambda>(cell, shared).
     bind (simplify_assigned simplify_parameter type_name module_node node shared)
       (\<lambda>(node, shared).
     bind (deref shared module_node) (\<lambda>m.
     bind (set_parameter cell_instance node m) (\<lambda>(paraset, m).
       Inr (case paraset of
              None \<Rightarrow> cell
            | Some node \<Rightarrow> set_children (children cell @ [node]) cell,
            assign_node module_node m shared)))))"

fun apply_parameters ::
  "parameter_simplifier \<Rightarrow> string \<Rightarrow> nat \<Rightarrow> bool \<Rightarrow> AstNode list \<Rightarrow> AstNode \<times> UhdmAstShared \<Rightarrow>
   error + AstNode \<times> UhdmAstShared" where
  "apply_parameters simplify_parameter type_name module_node cell_instance [] s = Inr s"
| "apply_parameters simplify_parameter type_name module_node cell_instance (node # nodes) s =
     bind (apply_parameter simplify_parameter type_name module_node cell_instance node s)
       (apply_parameters simplify_parameter type_name module_node cell_instance nodes)"

text \<open>Lines 1260 to 1268.\<close>

definition keep_module :: "AstNode \<Rightarrow> AstNode" where
  "keep_module m =
     (let m = attr_set ID_keep (mkconst_int 1 False 1) m
      in (case map_of (attributes m) ID_partial of
            Some attr \<Rightarrow> if type attr = AST_CONSTANT \<and> integer attr = 1
                         then attr_erase ID_partial m else m
          | None \<Rightarrow> m))"

text \<open>\<^verbatim>\<open>make_cell\<close>: the cell names its entity and takes one argument per port. A port
  is given by its name and the node of its connection, if it has one.\<close>

definition make_cell :: "(string \<times> AstNode option) list \<Rightarrow> AstNode \<Rightarrow> AstNode \<Rightarrow> AstNode" where
  "make_cell ports cell_node type_node =
     (let cell_node =
            (if children cell_node = [] \<or> type (hd (children cell_node)) \<noteq> AST_CELLTYPE
             then set_children (set_str (str type_node) (new_AstNode AST_CELLTYPE [])
                                # children cell_node) cell_node
             else cell_node)
      in set_children
           (children cell_node @
            map (\<lambda>(arg_name, conn).
                   set_str arg_name
                     (new_AstNode AST_ARGUMENT
                        (case conn of
                           None \<Rightarrow> []
                         | Some node \<Rightarrow>
                             [if type node = AST_PARAMETER \<or> type node = AST_LOCALPARAM
                              then set_type AST_IDENTIFIER node else node]))) ports)
           cell_node)"

text \<open>
  The instance branch of \<^verbatim>\<open>UhdmAst::process_module\<close> (lines 1159 to 1290). What the
  visits of the design object return is given: \<open>name\<close> is the name of the instance,
  \<open>param_assigns\<close> are the nodes of its parameter assignments, \<open>body\<close> the nodes of its
  variables, nets, interfaces, modules, ports and generate scopes in the order of the
  two visits of lines 1276 to 1285, \<open>ports\<close> the port connections. The result is the
  cell and the shared state. The visits of the nested objects run this branch again
  for the instances inside; what they do to the shared state is not followed here.
\<close>

definition process_module_instance ::
  "(string \<Rightarrow> string) \<Rightarrow> parameter_simplifier \<Rightarrow> string \<Rightarrow> string \<Rightarrow> AstNode list \<Rightarrow> bool \<Rightarrow>
   AstNode list \<Rightarrow> (string \<times> AstNode option) list \<Rightarrow> UhdmAstShared \<Rightarrow>
   error + AstNode \<times> UhdmAstShared" where
  "process_module_instance sha1 simplify_parameter type_name name param_assigns cell_instance
     body ports shared =
     (let current_node = set_str name (new_AstNode AST_CELL [])
      in bind (module_parameters_of simplify_parameter shared type_name param_assigns)
           (\<lambda>module_parameters.
         bind (find_module type_name (module_name_of sha1 type_name module_parameters)
                 module_parameters cell_instance shared) (\<lambda>(module_node, cell_instance, shared).
         bind (apply_parameters simplify_parameter type_name module_node cell_instance
                 param_assigns (current_node, shared)) (\<lambda>(current_node, shared).
         bind (deref shared module_node) (\<lambda>m.
         let m = keep_module m;
             current_node = set_children
               (set_str (str m) (new_AstNode AST_CELLTYPE []) # children current_node)
               current_node;
             old_top = current_top_node shared;
             shared = (assign_node module_node m shared)\<lparr>current_top_node := Some module_node\<rparr>
         in bind (add_or_replace_children m body) (\<lambda>m.
            Inr (make_cell ports current_node m,
                 (assign_node module_node m shared)\<lparr>current_top_node := old_top\<rparr>)))))))"

text \<open>
  What the branch makes of the node of the entity the instance refers to, as a function
  of that node alone: it is renamed (line 1206) and marked (lines 1208 to 1210), the
  parameter assignments are set on it one after the other, it receives the
  \<^verbatim>\<open>keep\<close> attribute and loses the marker of an entity not yet seen (lines 1260 to
  1268), and the nodes of the body are merged in (lines 1276 to 1285). \<open>nodes\<close> are the
  parameter assignments as the simplifier has left them.
\<close>

fun set_parameters :: "bool \<Rightarrow> AstNode list \<Rightarrow> AstNode \<Rightarrow> error + AstNode" where
  "set_parameters cell_instance [] m = Inr m"
| "set_parameters cell_instance (node # nodes) m =
     bind (set_parameter cell_instance node m) (\<lambda>(paraset, m).
       set_parameters cell_instance nodes m)"

definition instance_entity ::
  "string \<Rightarrow> bool \<Rightarrow> AstNode list \<Rightarrow> AstNode list \<Rightarrow> AstNode \<Rightarrow> error + AstNode" where
  "instance_entity module_name cell_instance nodes body m =
     bind (set_parameters cell_instance nodes
             ((if cell_instance then attr_set ID_whitebox (mkconst_int 1 False 1) else id)
                (set_str module_name m))) (\<lambda>m.
       add_or_replace_children (keep_module m) body)"

text \<open>
  A scenario: the generic module \<open>M\<close> with one parameter \<open>W\<close> of default 8, registered
  at the first place of the store; a parameter assignment \<open>W = v\<close> of an instance; a
  parameter simplifier for assignments that are constants already; a digest that is
  never asked for, the parameter texts being short.
\<close>

definition generic_m :: AstNode where
  "generic_m = set_str (backslash # ''M'')
     (new_AstNode AST_MODULE
        [set_str (backslash # ''W'') (new_AstNode AST_PARAMETER [mkconst_int 8 False 32])])"

definition shared_m :: UhdmAstShared where
  "shared_m = \<lparr>shared_top_nodes = [(backslash # ''M'', Some 0)], shared_store = [generic_m],
               current_top_node = None\<rparr>"

definition assign_w :: "int \<Rightarrow> AstNode" where
  "assign_w v = set_str (backslash # ''W'') (new_AstNode AST_PARAMETER [mkconst_int v False 32])"

definition constant_parameter :: parameter_simplifier where
  "constant_parameter shared node module_node = Inr node"

definition no_digest :: "string \<Rightarrow> string" where
  "no_digest s = []"

definition instance_of_m ::
  "string \<Rightarrow> AstNode list \<Rightarrow> UhdmAstShared \<Rightarrow> error + AstNode \<times> UhdmAstShared" where
  "instance_of_m name param_assigns shared =
     process_module_instance no_digest constant_parameter (backslash # ''M'') name param_assigns
       False [] [] shared"

section \<open>Basic facts\<close>

subsection \<open>Reading a field after an update\<close>

lemma set_type_sel [simp]:
  "type (set_type v n) = v"
  "str (set_type v n) = str n"
  "children (set_type v n) = children n"
  "attributes (set_type v n) = attributes n"
  "id2ast (set_type v n) = id2ast n"
  "bits (set_type v n) = bits n"
  "is_input (set_type v n) = is_input n"
  "is_output (set_type v n) = is_output n"
  "is_signed (set_type v n) = is_signed n"
  "is_custom_type (set_type v n) = is_custom_type n"
  "range_valid (set_type v n) = range_valid n"
  "range_swapped (set_type v n) = range_swapped n"
  "port_id (set_type v n) = port_id n"
  "range_left (set_type v n) = range_left n"
  "range_right (set_type v n) = range_right n"
  "integer (set_type v n) = integer n"
  "basic_prep (set_type v n) = basic_prep n"
  "multirange_dimensions (set_type v n) = multirange_dimensions n"
  "multirange_swapped (set_type v n) = multirange_swapped n"
  by (simp_all add: set_type_def)

lemma set_str_sel [simp]:
  "type (set_str v n) = type n"
  "str (set_str v n) = v"
  "children (set_str v n) = children n"
  "attributes (set_str v n) = attributes n"
  "id2ast (set_str v n) = id2ast n"
  "bits (set_str v n) = bits n"
  "is_input (set_str v n) = is_input n"
  "is_output (set_str v n) = is_output n"
  "is_signed (set_str v n) = is_signed n"
  "is_custom_type (set_str v n) = is_custom_type n"
  "range_valid (set_str v n) = range_valid n"
  "range_swapped (set_str v n) = range_swapped n"
  "port_id (set_str v n) = port_id n"
  "range_left (set_str v n) = range_left n"
  "range_right (set_str v n) = range_right n"
  "integer (set_str v n) = integer n"
  "basic_prep (set_str v n) = basic_prep n"
  "multirange_dimensions (set_str v n) = multirange_dimensions n"
  "multirange_swapped (set_str v n) = multirange_swapped n"
  by (simp_all add: set_str_def)

lemma set_children_sel [simp]:
  "type (set_children v n) = type n"
  "str (set_children v n) = str n"
  "children (set_children v n) = v"
  "attributes (set_children v n) = attributes n"
  "id2ast (set_children v n) = id2ast n"
  "bits (set_children v n) = bits n"
  "is_input (set_children v n) = is_input n"
  "is_output (set_children v n) = is_output n"
  "is_signed (set_children v n) = is_signed n"
  "is_custom_type (set_children v n) = is_custom_type n"
  "range_valid (set_children v n) = range_valid n"
  "range_swapped (set_children v n) = range_swapped n"
  "port_id (set_children v n) = port_id n"
  "range_left (set_children v n) = range_left n"
  "range_right (set_children v n) = range_right n"
  "integer (set_children v n) = integer n"
  "basic_prep (set_children v n) = basic_prep n"
  "multirange_dimensions (set_children v n) = multirange_dimensions n"
  "multirange_swapped (set_children v n) = multirange_swapped n"
  by (simp_all add: set_children_def)

lemma set_attributes_sel [simp]:
  "type (set_attributes v n) = type n"
  "str (set_attributes v n) = str n"
  "children (set_attributes v n) = children n"
  "attributes (set_attributes v n) = v"
  "id2ast (set_attributes v n) = id2ast n"
  "bits (set_attributes v n) = bits n"
  "is_input (set_attributes v n) = is_input n"
  "is_output (set_attributes v n) = is_output n"
  "is_signed (set_attributes v n) = is_signed n"
  "is_custom_type (set_attributes v n) = is_custom_type n"
  "range_valid (set_attributes v n) = range_valid n"
  "range_swapped (set_attributes v n) = range_swapped n"
  "port_id (set_attributes v n) = port_id n"
  "range_left (set_attributes v n) = range_left n"
  "range_right (set_attributes v n) = range_right n"
  "integer (set_attributes v n) = integer n"
  "basic_prep (set_attributes v n) = basic_prep n"
  "multirange_dimensions (set_attributes v n) = multirange_dimensions n"
  "multirange_swapped (set_attributes v n) = multirange_swapped n"
  by (simp_all add: set_attributes_def)

lemma set_id2ast_sel [simp]:
  "type (set_id2ast v n) = type n"
  "str (set_id2ast v n) = str n"
  "children (set_id2ast v n) = children n"
  "attributes (set_id2ast v n) = attributes n"
  "id2ast (set_id2ast v n) = v"
  "bits (set_id2ast v n) = bits n"
  "is_input (set_id2ast v n) = is_input n"
  "is_output (set_id2ast v n) = is_output n"
  "is_signed (set_id2ast v n) = is_signed n"
  "is_custom_type (set_id2ast v n) = is_custom_type n"
  "range_valid (set_id2ast v n) = range_valid n"
  "range_swapped (set_id2ast v n) = range_swapped n"
  "port_id (set_id2ast v n) = port_id n"
  "range_left (set_id2ast v n) = range_left n"
  "range_right (set_id2ast v n) = range_right n"
  "integer (set_id2ast v n) = integer n"
  "basic_prep (set_id2ast v n) = basic_prep n"
  "multirange_dimensions (set_id2ast v n) = multirange_dimensions n"
  "multirange_swapped (set_id2ast v n) = multirange_swapped n"
  by (simp_all add: set_id2ast_def)

lemma set_ports_sel [simp]:
  "type (set_ports a b c n) = type n"
  "str (set_ports a b c n) = str n"
  "children (set_ports a b c n) = children n"
  "attributes (set_ports a b c n) = attributes n"
  "id2ast (set_ports a b c n) = id2ast n"
  "bits (set_ports a b c n) = bits n"
  "is_input (set_ports a b c n) = a"
  "is_output (set_ports a b c n) = b"
  "is_signed (set_ports a b c n) = is_signed n"
  "is_custom_type (set_ports a b c n) = is_custom_type n"
  "range_valid (set_ports a b c n) = range_valid n"
  "range_swapped (set_ports a b c n) = range_swapped n"
  "port_id (set_ports a b c n) = c"
  "range_left (set_ports a b c n) = range_left n"
  "range_right (set_ports a b c n) = range_right n"
  "integer (set_ports a b c n) = integer n"
  "basic_prep (set_ports a b c n) = basic_prep n"
  "multirange_dimensions (set_ports a b c n) = multirange_dimensions n"
  "multirange_swapped (set_ports a b c n) = multirange_swapped n"
  by (simp_all add: set_ports_def)

lemma set_is_custom_type_sel [simp]:
  "type (set_is_custom_type v n) = type n"
  "str (set_is_custom_type v n) = str n"
  "children (set_is_custom_type v n) = children n"
  "attributes (set_is_custom_type v n) = attributes n"
  "id2ast (set_is_custom_type v n) = id2ast n"
  "bits (set_is_custom_type v n) = bits n"
  "is_input (set_is_custom_type v n) = is_input n"
  "is_output (set_is_custom_type v n) = is_output n"
  "is_signed (set_is_custom_type v n) = is_signed n"
  "is_custom_type (set_is_custom_type v n) = v"
  "range_valid (set_is_custom_type v n) = range_valid n"
  "range_swapped (set_is_custom_type v n) = range_swapped n"
  "port_id (set_is_custom_type v n) = port_id n"
  "range_left (set_is_custom_type v n) = range_left n"
  "range_right (set_is_custom_type v n) = range_right n"
  "integer (set_is_custom_type v n) = integer n"
  "basic_prep (set_is_custom_type v n) = basic_prep n"
  "multirange_dimensions (set_is_custom_type v n) = multirange_dimensions n"
  "multirange_swapped (set_is_custom_type v n) = multirange_swapped n"
  by (simp_all add: set_is_custom_type_def)

lemma set_basic_prep_sel [simp]:
  "type (set_basic_prep v n) = type n"
  "str (set_basic_prep v n) = str n"
  "children (set_basic_prep v n) = children n"
  "attributes (set_basic_prep v n) = attributes n"
  "id2ast (set_basic_prep v n) = id2ast n"
  "bits (set_basic_prep v n) = bits n"
  "is_input (set_basic_prep v n) = is_input n"
  "is_output (set_basic_prep v n) = is_output n"
  "is_signed (set_basic_prep v n) = is_signed n"
  "is_custom_type (set_basic_prep v n) = is_custom_type n"
  "range_valid (set_basic_prep v n) = range_valid n"
  "range_swapped (set_basic_prep v n) = range_swapped n"
  "port_id (set_basic_prep v n) = port_id n"
  "range_left (set_basic_prep v n) = range_left n"
  "range_right (set_basic_prep v n) = range_right n"
  "integer (set_basic_prep v n) = integer n"
  "basic_prep (set_basic_prep v n) = v"
  "multirange_dimensions (set_basic_prep v n) = multirange_dimensions n"
  "multirange_swapped (set_basic_prep v n) = multirange_swapped n"
  by (simp_all add: set_basic_prep_def)

lemma set_multirange_sel [simp]:
  "type (set_multirange d s n) = type n"
  "str (set_multirange d s n) = str n"
  "children (set_multirange d s n) = children n"
  "attributes (set_multirange d s n) = attributes n"
  "id2ast (set_multirange d s n) = id2ast n"
  "bits (set_multirange d s n) = bits n"
  "is_input (set_multirange d s n) = is_input n"
  "is_output (set_multirange d s n) = is_output n"
  "is_signed (set_multirange d s n) = is_signed n"
  "is_custom_type (set_multirange d s n) = is_custom_type n"
  "range_valid (set_multirange d s n) = range_valid n"
  "range_swapped (set_multirange d s n) = range_swapped n"
  "port_id (set_multirange d s n) = port_id n"
  "range_left (set_multirange d s n) = range_left n"
  "range_right (set_multirange d s n) = range_right n"
  "integer (set_multirange d s n) = integer n"
  "basic_prep (set_multirange d s n) = basic_prep n"
  "multirange_dimensions (set_multirange d s n) = d"
  "multirange_swapped (set_multirange d s n) = s"
  by (simp_all add: set_multirange_def)

lemma set_twice [simp]:
  "set_multirange d s (set_multirange d' s' n) = set_multirange d s n"
  "set_children cs (set_children cs' n) = set_children cs n"
  "set_type t (set_type t' n) = set_type t n"
  "set_attributes a (set_attributes a' n) = set_attributes a n"
  by (simp_all add: set_defs)

lemma new_AstNode_sel [simp]:
  "type (new_AstNode t cs) = t"
  "str (new_AstNode t cs) = []"
  "children (new_AstNode t cs) = cs"
  "attributes (new_AstNode t cs) = []"
  "id2ast (new_AstNode t cs) = None"
  "is_input (new_AstNode t cs) = False"
  "is_output (new_AstNode t cs) = False"
  "is_signed (new_AstNode t cs) = False"
  "range_swapped (new_AstNode t cs) = False"
  "range_left (new_AstNode t cs) = - 1"
  "range_right (new_AstNode t cs) = 0"
  "integer (new_AstNode t cs) = 0"
  "basic_prep (new_AstNode t cs) = False"
  "multirange_dimensions (new_AstNode t cs) = []"
  "multirange_swapped (new_AstNode t cs) = []"
  by (simp_all add: new_AstNode_def)

lemma mkconst_int_sel [simp]:
  "type (mkconst_int v sg w) = AST_CONSTANT"
  "str (mkconst_int v sg w) = []"
  "children (mkconst_int v sg w) = []"
  "attributes (mkconst_int v sg w) = []"
  "is_signed (mkconst_int v sg w) = sg"
  "integer (mkconst_int v sg w) = word_of_int v"
  "length (bits (mkconst_int v sg w)) = w"
  by (simp_all add: mkconst_int_def)

lemma make_range_sel [simp]:
  "type (make_range l r sg) = AST_RANGE"
  "str (make_range l r sg) = []"
  "children (make_range l r sg) = [mkconst_int l True 32, mkconst_int r True 32]"
  "attributes (make_range l r sg) = []"
  "range_swapped (make_range l r sg) = False"
  "range_left (make_range l r sg) = l"
  "range_right (make_range l r sg) = r"
  by (simp_all add: make_range_def)

lemma attr_set_sel [simp]:
  "type (attr_set k v n) = type n"
  "str (attr_set k v n) = str n"
  "children (attr_set k v n) = children n"
  "is_input (attr_set k v n) = is_input n"
  "is_output (attr_set k v n) = is_output n"
  "multirange_dimensions (attr_set k v n) = multirange_dimensions n"
  "multirange_swapped (attr_set k v n) = multirange_swapped n"
  "map_of (attributes (attr_set k v n)) = (map_of (attributes n))(k \<mapsto> v)"
  by (simp_all add: attr_set_def update_conv')

lemma attr_erase_sel [simp]:
  "type (attr_erase k n) = type n"
  "str (attr_erase k n) = str n"
  "children (attr_erase k n) = children n"
  "is_input (attr_erase k n) = is_input n"
  "is_output (attr_erase k n) = is_output n"
  "multirange_dimensions (attr_erase k n) = multirange_dimensions n"
  "multirange_swapped (attr_erase k n) = multirange_swapped n"
  "map_of (attributes (attr_erase k n)) = (map_of (attributes n))(k := None)"
  by (simp_all add: attr_erase_def delete_conv')

lemma attr_children_attr_set [simp]:
  "attr_children (attr_set k v n) k' = (if k' = k then children v else attr_children n k')"
  by (simp add: attr_children_def)

lemma attr_count_attr_set [simp]:
  "attr_count (attr_set k v n) k' = (k' = k \<or> attr_count n k')"
  by (simp add: attr_count_def)

lemma attr_children_set [simp]:
  "attr_children (set_type t n) k = attr_children n k"
  "attr_children (set_str s n) k = attr_children n k"
  "attr_children (set_children cs n) k = attr_children n k"
  "attr_children (set_multirange d sw n) k = attr_children n k"
  "attr_children (new_AstNode t cs) k = []"
  by (simp_all add: attr_children_def)

lemma attr_count_set [simp]:
  "attr_count (set_type t n) k = attr_count n k"
  "attr_count (set_str s n) k = attr_count n k"
  "attr_count (set_children cs n) k = attr_count n k"
  "attr_count (set_multirange d sw n) k = attr_count n k"
  "attr_count (new_AstNode t cs) k = False"
  by (simp_all add: attr_count_def)

lemma bind_simps [simp]:
  "bind (Inr x) f = f x"
  "bind (Inl e) f = Inl e"
  by (simp_all add: bind_def)

lemma log_assert_simps [simp]:
  "c \<Longrightarrow> log_assert c k = k"
  "\<not> c \<Longrightarrow> log_assert c k = Inl assert_failed"
  by (simp_all add: log_assert_def)

lemma at_simps [simp]:
  "i < length xs \<Longrightarrow> at xs i = Inr (xs ! i)"
  "\<not> i < length xs \<Longrightarrow> at xs i = Inl out_of_range"
  by (simp_all add: at_def)

lemma eval_mkconst_int_unsigned:
  "0 \<le> v \<Longrightarrow> v < 2 ^ 32 \<Longrightarrow> eval env (mkconst_int v False w) = Some v"
  by (simp add: mkconst_int_def uint_word_of_int take_bit_int_eq_self)

lemma eval_mkconst_int_signed:
  "- (2 ^ 31) \<le> v \<Longrightarrow> v < 2 ^ 31 \<Longrightarrow> eval env (mkconst_int v True w) = Some v"
  by (simp add: mkconst_int_def sint_sbintrunc' signed_take_bit_int_eq_self)

lemma eval_binary [simp]:
  "eval env (new_AstNode AST_ADD [x, y]) =
     (case (eval env x, eval env y) of (Some u, Some v) \<Rightarrow> Some (u + v) | _ \<Rightarrow> None)"
  "eval env (new_AstNode AST_SUB [x, y]) =
     (case (eval env x, eval env y) of (Some u, Some v) \<Rightarrow> Some (u - v) | _ \<Rightarrow> None)"
  "eval env (new_AstNode AST_MUL [x, y]) =
     (case (eval env x, eval env y) of (Some u, Some v) \<Rightarrow> Some (u * v) | _ \<Rightarrow> None)"
  by (simp_all add: new_AstNode_def split: option.splits)

declare convert_range.simps [simp del]

subsection \<open>The element sizes of a zero-based dimension table\<close>

lemma dim_table_simps [simp]:
  "dim_table [] = []" "dim_table (w # ws) = 0 # w # dim_table ws"
  "length (dim_table ws) = 2 * length ws"
  by (induction ws) (simp_all add: dim_table_def)

lemma dim_table_nth:
  "j < length ws \<Longrightarrow> dim_table ws ! (2 * j) = 0 \<and> dim_table ws ! Suc (2 * j) = ws ! j"
proof (induction ws arbitrary: j)
  case Nil then show ?case by simp
next
  case (Cons w ws)
  then show ?case by (cases j) simp_all
qed

lemma pos_prod_list: "\<forall>w\<in>set ws. (0::int) < w \<Longrightarrow> 0 < prod_list ws"
  by (induction ws) simp_all

lemma le_mult_pos: "(0::int) < a \<Longrightarrow> 0 < b \<Longrightarrow> a \<le> a * b"
  by (simp add: mult_le_cancel_left1) 

lemma c_int_simp [simp]: "- (2 ^ 31) \<le> x \<Longrightarrow> x < 2 ^ 31 \<Longrightarrow> c_int x = Inr x"
  by (simp add: c_int_def)

lemma elem_sizes_dim_table:
  assumes "\<forall>w\<in>set vs. 0 < w" "0 < e" "e * prod_list vs < 2 ^ 31"
  shows "elem_sizes e (dim_table vs) = Inr (map (\<lambda>j. e * prod_list (take (Suc j) vs)) [0 ..< length vs])"
  using assms
proof (induction vs arbitrary: e)
  case Nil
  then show ?case by simp
next
  case (Cons v vs)
  have v: "0 < v" and p: "0 < prod_list vs" using Cons.prems pos_prod_list by auto
  have ev: "0 < e * v" using v Cons.prems by simp
  have tot: "e * v * prod_list vs < 2 ^ 31" using Cons.prems(3) by (simp only: prod_list.Cons mult.assoc)
  have "e * v \<le> e * v * prod_list vs" using le_mult_pos[OF ev p] .
  then have b1: "e * v < 2 ^ 31" using tot by linarith
  have "v \<le> v * e" using le_mult_pos[OF v] Cons.prems(2) by blast
  then have b2: "v < 2 ^ 31" using b1 by (simp only: mult.commute[of v e])
  have ih: "elem_sizes (e * v) (dim_table vs) =
      Inr (map (\<lambda>j. e * v * prod_list (take (Suc j) vs)) [0 ..< length vs])"
    using Cons.prems(1) ev tot by (intro Cons.IH) simp_all
  show ?case
    using v ev b1 b2 by (simp add: ih map_upt_Suc mult.assoc del: upt_Suc)
qed


lemma prod_list_drop_bounds:
  assumes "\<forall>w\<in>set ws. (0::int) < w"
  shows "0 < prod_list (drop k ws) \<and> prod_list (drop k ws) \<le> prod_list ws"
proof -
  have d: "0 < prod_list (drop k ws)" and t: "0 < prod_list (take k ws)"
    using assms by (auto intro!: pos_prod_list dest: in_set_dropD in_set_takeD)
  have "prod_list ws = prod_list (take k ws) * prod_list (drop k ws)"
    by (metis append_take_drop_id prod_list.append)
  then show ?thesis using d t le_mult_pos[OF d t] by (simp add: mult.commute)
qed

lemma single_elem_sizes_dim_table:
  assumes "\<forall>w\<in>set ws. 0 < w" "prod_list ws < 2 ^ 31"
  shows "single_elem_sizes (dim_table (rev ws)) =
           Inr (map (\<lambda>k. prod_list (drop k ws)) [0 ..< Suc (length ws)])"
proof -
  let ?n = "length ws"
  have es: "elem_sizes 1 (dim_table (rev ws)) =
      Inr (map (\<lambda>j. prod_list (take (Suc j) (rev ws))) [0 ..< ?n])"
    using elem_sizes_dim_table[of "rev ws" 1] assms by simp
  have "rev (1 # map (\<lambda>j. prod_list (take (Suc j) (rev ws))) [0 ..< ?n]) =
        map (\<lambda>k. prod_list (drop k ws)) [0 ..< Suc ?n]" (is "rev ?xs = ?ys")
  proof (rule nth_equalityI)
    show "length (rev ?xs) = length ?ys" by simp
  next
    fix k assume "k < length (rev ?xs)"
    then have k: "k \<le> ?n" by simp
    have "rev ?xs ! k = ?xs ! (length ?xs - Suc k)" using k by (intro rev_nth) simp
    also have "\<dots> = ?xs ! (?n - k)" by simp
    also have "\<dots> = prod_list (drop k ws)"
    proof (cases "k = ?n")
      case True then show ?thesis by simp
    next
      case False
      then obtain j where j: "?n - k = Suc j" using k by (metis Suc_diff_Suc le_neq_implies_less)
      then have "j < ?n" by simp
      then have "?xs ! (?n - k) = prod_list (take (Suc j) (rev ws))" by (simp add: j)
      also have "take (Suc j) (rev ws) = rev (drop k ws)"
      proof -
        have "length ws - Suc j = k" using j k by arith
        then show ?thesis by (simp add: take_rev)
      qed
      finally show ?thesis by (simp add: prod_list.rev)
    qed
    also have "\<dots> = ?ys ! k" using k by (simp add: nth_map_upt less_Suc_eq_le del: upt_Suc)
    finally show "rev ?xs ! k = ?ys ! k" .
  qed
  then show ?thesis by (simp add: single_elem_sizes_def es del: upt_Suc)
qed


lemma at_int_rev:
  assumes "i < length xs" "k = int (length xs) - int i - 1"
  shows "at_int (rev xs) k = Inr (xs ! i)"
proof -
  have "nat k = length xs - Suc i" using assms by arith
  then show ?thesis using assms by (simp add: at_int_def rev_nth)
qed

lemma at_int_dim_table_rev:
  assumes "i < length ws"
  shows "k = 2 * int (length ws) - int i * 2 - 1 \<Longrightarrow> at_int (dim_table (rev ws)) k = Inr (ws ! i)"
    and "k = 2 * int (length ws) - int i * 2 - 2 \<Longrightarrow> at_int (dim_table (rev ws)) k = Inr 0"
proof -
  let ?j = "length ws - Suc i"
  have j: "?j < length (rev ws)" using assms by simp
  have r: "rev ws ! ?j = ws ! i" using assms by (simp add: rev_nth)
  {
    assume "k = 2 * int (length ws) - int i * 2 - 1"
    then have "nat k = Suc (2 * ?j)" "0 \<le> k" "k < int (length (dim_table (rev ws)))"
      using assms by simp_all
    then show "at_int (dim_table (rev ws)) k = Inr (ws ! i)"
      unfolding at_int_def using dim_table_nth[OF j] r by simp
  }
  {
    assume "k = 2 * int (length ws) - int i * 2 - 2"
    then have "nat k = 2 * ?j" "0 \<le> k" "k < int (length (dim_table (rev ws)))"
      using assms by simp_all
    then show "at_int (dim_table (rev ws)) k = Inr 0"
      unfolding at_int_def using dim_table_nth[OF j] by simp
  }
qed

lemma convert_range_row_major_aux:
  assumes m: "current_ast_mod g \<noteq> None"
    and sc: "current_scope g (str id_node) = Some wire_node"
    and dims: "multirange_dimensions wire_node = dim_table (rev ws)"
    and swp: "multirange_swapped wire_node = rev sw"
    and len: "length sw = length ws" "length idx = length ws"
    and pos: "\<forall>w\<in>set ws. 0 < w" and bound: "prod_list ws < 2 ^ 31"
    and ch: "children id_node = map bit_select idx"
    and ev: "map (eval env) idx = map Some vals"
    and pu: "length ws \<le> length packed_ranges + length unpacked_ranges"
    and i: "i < length ws"
  shows "\<exists>l r. convert_range g id_node packed_ranges unpacked_ranges i
            = Inr (new_AstNode AST_RANGE [l, r])
          \<and> eval env l = Some (row_major (map (effective_index vals ws sw) [i ..< length ws]) (drop i ws))
          \<and> eval env r = Some (row_major (map (effective_index vals ws sw) [i ..< length ws]) (drop i ws))"
  using i
proof (induction "length ws - i" arbitrary: i)
  case 0
  then show ?case by simp
next
  case (Suc d)
  let ?n = "length ws"
  let ?D = "multirange_dimensions wire_node"
  let ?S = "multirange_swapped wire_node"
  have i: "i < ?n" by fact
  have ne: "ws \<noteq> []" using i by auto
  have ses: "single_elem_sizes ?D = Inr (map (\<lambda>k. prod_list (drop k ws)) [0 ..< Suc ?n])"
    unfolding dims by (rule single_elem_sizes_dim_table[OF pos bound])
  have at_ses: "at (map (\<lambda>k. prod_list (drop k ws)) [0 ..< Suc ?n]) (Suc i) = Inr (prod_list (drop (Suc i) ws))"
    using i by (simp add: nth_map_upt del: upt_Suc)
  have pb: "0 < prod_list (drop (Suc i) ws)" "prod_list (drop (Suc i) ws) < 2 ^ 32"
    using prod_list_drop_bounds[OF pos, of "Suc i"] bound by auto
  have wi: "0 < ws ! i" using pos i by simp
  have "ws ! i \<le> prod_list ws"
  proof -
    have "prod_list (drop i ws) = ws ! i * prod_list (drop (Suc i) ws)"
      using i by (simp flip: Cons_nth_drop_Suc)
    then have "ws ! i \<le> prod_list (drop i ws)" using le_mult_pos[OF wi pb(1)] by simp
    then show ?thesis using prod_list_drop_bounds[OF pos, of i] by linarith
  qed
  then have wb: "ws ! i < 2 ^ 31" using bound by linarith
  have evi: "eval env (idx ! i) = Some (vals ! i)"
  proof -
    have "map (eval env) idx ! i = map Some vals ! i" using ev by simp
    moreover have "length vals = length idx" using ev by (metis length_map)
    ultimately show ?thesis using i len by simp
  qed
  have dlen: "length ?D = 2 * ?n" and slen: "length ?S = ?n"
    by (simp_all add: dims swp len)
  have dimne: "?D \<noteq> []" and swne: "?S \<noteq> []" using dlen slen ne by auto
  have sw_at: "\<And>k. k = int ?n - int i - 1 \<Longrightarrow> at_int ?S k = Inr (sw ! i)"
    unfolding swp using at_int_rev[of i sw] i len by simp
  have d_at: "\<And>k. k = 2 * int ?n - int i * 2 - 1 \<Longrightarrow> at_int ?D k = Inr (ws ! i)"
     "\<And>k. k = 2 * int ?n - int i * 2 - 2 \<Longrightarrow> at_int ?D k = Inr 0"
    unfolding dims using at_int_dim_table_rev[OF i] by blast+
  have c1: "eval env (mkconst_int 1 False 32) = Some 1"
    by (simp add: eval_mkconst_int_unsigned)
  have cs: "eval env (mkconst_int (prod_list (drop (Suc i) ws)) False 32) = Some (prod_list (drop (Suc i) ws))"
    using pb by (simp add: eval_mkconst_int_unsigned)
  have cw: "eval env (mkconst_int (ws ! i - 1) False 32) = Some (ws ! i - 1)"
    using wi wb by (simp add: eval_mkconst_int_unsigned)
  have upt: "[i ..< ?n] = i # [Suc i ..< ?n]" using i by (simp add: upt_conv_Cons)
  have drp: "drop i ws = ws ! i # drop (Suc i) ws" using i by (simp add: Cons_nth_drop_Suc)
  have chn: "children id_node \<noteq> []" "length (children id_node) = ?n"
    "children (children id_node ! i) = [idx ! i]"
    using i len by (auto simp add: ch bit_select_def)
  note ctl = sc scope_at_def ses at_ses dlen slen dimne swne sw_at d_at chn Let_def
  note val = evi c1 cs cw upt drp effective_index_def algebra_simps
  show ?case
  proof (cases "Suc i < ?n")
    case True
    then have "d = ?n - Suc i" using Suc.hyps(2) by simp
    from Suc.hyps(1)[OF this True] obtain l r where
      rec: "convert_range g id_node packed_ranges unpacked_ranges (Suc i) = Inr (new_AstNode AST_RANGE [l, r])"
      and l: "eval env l = Some (row_major (map (effective_index vals ws sw) [Suc i ..< ?n]) (drop (Suc i) ws))"
      and r: "eval env r = Some (row_major (map (effective_index vals ws sw) [Suc i ..< ?n]) (drop (Suc i) ws))"
      by blast
    show ?thesis
    proof (cases "sw ! i")
      case sw: True
      show ?thesis
        apply (subst convert_range.simps)
        using m i pu wi wb True sw
        apply (simp add: ctl rec del: upt_Suc)
        apply (intro exI conjI, rule refl)
         apply (simp_all add: val l r del: upt_Suc)
        done
    next
      case sw: False
      show ?thesis
        apply (subst convert_range.simps)
        using m i pu wi wb True sw
        apply (simp add: ctl rec del: upt_Suc)
        apply (intro exI conjI, rule refl)
         apply (simp_all add: val l r del: upt_Suc)
        done
    qed
  next
    case False
    then have last: "drop (Suc i) ws = []" "[Suc i ..< ?n] = []" using i by simp_all
    show ?thesis
    proof (cases "sw ! i")
      case sw: True
      show ?thesis
        apply (subst convert_range.simps)
        using m i pu wi wb False sw
        apply (simp add: ctl del: upt_Suc)
        apply (intro exI conjI, rule refl)
         apply (simp_all add: val last del: upt_Suc)
        done
    next
      case sw: False
      show ?thesis
        apply (subst convert_range.simps)
        using m i pu wi wb False sw
        apply (simp add: ctl del: upt_Suc)
        apply (intro exI conjI, rule refl)
         apply (simp_all add: val last del: upt_Suc)
        done
    qed
  qed
qed


lemma wire_decl_sel [simp]:
  "type (wire_decl name ps us) = AST_WIRE"
  "str (wire_decl name ps us) = name"
  "children (wire_decl name ps us) = []"
  "is_input (wire_decl name ps us) = False"
  "is_output (wire_decl name ps us) = False"
  "multirange_dimensions (wire_decl name ps us) = []"
  "multirange_swapped (wire_decl name ps us) = []"
  "attr_children (wire_decl name ps us) ID_packed_ranges = rev ps"
  "attr_children (wire_decl name ps us) ID_unpacked_ranges = rev us"
  "attr_count (wire_decl name ps us) ID_wiretype = False"
  "map_of (attributes (wire_decl name ps us)) ID_force_convert = None"
  "map_of (attributes (wire_decl name ps us)) ID_packed_ranges = Some (set_children (rev ps) (mkconst_int 1 False 1))"
  "map_of (attributes (wire_decl name ps us)) ID_unpacked_ranges = Some (set_children (rev us) (mkconst_int 1 False 1))"
  by (simp_all add: wire_decl_def add_multirange_wire_def Let_def attr_count_def)


lemma swapped_range_sel [simp]:
  "type (swapped_range l r) = AST_RANGE"
  "children (swapped_range l r) = [mkconst_int l True 32, mkconst_int r True 32]"
  "range_swapped (swapped_range l r) = True"
  by (simp_all add: swapped_range_def)

subsection \<open>Flattening two packed dimensions of widths 4 and 2\<close>

lemma flatten_4x2:
  assumes m: "current_ast_mod g \<noteq> None"
    and s1: "simp g (make_range 3 0 False) = make_range 3 0 False"
    and s2: "simp g (make_range 1 0 False) = make_range 1 0 False"
  shows "\<exists>w. convert_packed_unpacked_range simp g
            (wire_decl name [make_range 3 0 False, make_range 1 0 False] []) = Inr w
       \<and> multirange_dimensions w = [0, 2, 0, 4]
       \<and> multirange_swapped w = [False, False]
       \<and> children w = [make_range 7 0 False] \<and> type w = AST_WIRE \<and> str w = name
       \<and> length (attr_children w ID_packed_ranges) = 2 \<and> attr_children w ID_unpacked_ranges = []"
proof -
  have a1: "add_multirange_attribute simp g w [make_range 1 0 False, make_range 3 0 False]
     = Inr (set_multirange (multirange_dimensions w @ [0,2,0,4]) (multirange_swapped w @ [False, False]) w,
            [make_range 1 0 False, make_range 3 0 False], 8)" for w
    using m by (simp add: s1 s2)
  show ?thesis
    by (simp add: convert_packed_unpacked_range_def convert_node_cond_def a1 del: add_multirange_attribute.simps(2))
qed

lemma flatten_swapped_4x2:
  "\<exists>w. convert_packed_unpacked_range (\<lambda>g n. n) (in_module Map.empty)
            (wire_decl ''x'' [swapped_range 0 3, make_range 1 0 False] []) = Inr w
       \<and> multirange_dimensions w = [0, 2, 0, 4]
       \<and> multirange_swapped w = [False, True]
       \<and> children w = [make_range 7 0 False] \<and> type w = AST_WIRE \<and> str w = ''x''
       \<and> length (attr_children w ID_packed_ranges) = 2 \<and> attr_children w ID_unpacked_ranges = []"
proof -
  have a1: "add_multirange_attribute (\<lambda>g n. n) (in_module Map.empty) w [make_range 1 0 False, swapped_range 0 3]
     = Inr (set_multirange (multirange_dimensions w @ [0,2,0,4]) (multirange_swapped w @ [False, True]) w,
            [make_range 1 0 False, swapped_range 0 3], 8)" for w
    by (simp add: in_module_def)
  show ?thesis
    by (simp add: convert_packed_unpacked_range_def convert_node_cond_def a1 del: add_multirange_attribute.simps(2))
qed

section \<open>Access rewriting (claims C1 and C2)\<close>

text \<open>
  Claim C1, as amended. Let a flattened declaration have recorded the dimension-size
  table of dimensions that all start at 0, with widths \<open>ws\<close> in the order of the
  selectors (the table holds them reversed), the swap marks \<open>sw\<close>, and let the product
  of the widths fit the C++ \<^verbatim>\<open>int\<close>. For an access with one single-index selector per
  dimension, \<^verbatim>\<open>convert_range\<close> returns a range whose two bounds have the same value:
  the row-major sum of the effective indices times the product of the widths of all
  later dimensions, where the effective index of a dimension marked as swapped is
  \<open>width - 1 - index\<close> and that of any other dimension is the index itself.
\<close>

theorem C1_rewrite_access_row_major:
  assumes "current_ast_mod g \<noteq> None"
    and "current_scope g (str id_node) = Some wire_node"
    and "multirange_dimensions wire_node = dim_table (rev ws)"
    and "multirange_swapped wire_node = rev sw"
    and "length sw = length ws" and "length idx = length ws" and "ws \<noteq> []"
    and "\<forall>w\<in>set ws. 0 < w" and "prod_list ws < 2 ^ 31"
    and "children id_node = map bit_select idx"
    and "map (eval env) idx = map Some vals"
    and "length ws \<le> length packed_ranges + length unpacked_ranges"
  shows "\<exists>l r. convert_range g id_node packed_ranges unpacked_ranges 0
            = Inr (new_AstNode AST_RANGE [l, r])
          \<and> eval env l = Some (row_major (map (effective_index vals ws sw) [0 ..< length ws]) ws)
          \<and> eval env r = Some (row_major (map (effective_index vals ws sw) [0 ..< length ws]) ws)"
proof -
  have "0 < length ws" using assms(7) by simp
  from convert_range_row_major_aux[OF assms(1-6) assms(8-12) this]
  show ?thesis by simp
qed


text \<open>A three-dimensional instance: widths 3, 4 and 2, the middle dimension swapped,
  access \<open>[2][1][1]\<close>; the offset is \<open>2 * 8 + (4 - 1 - 1) * 2 + 1 = 21\<close>.\<close>

theorem C1_rewrite_access_row_major_witness:
  "\<exists>l r. convert_range (in_module [''m'' \<mapsto> set_multirange (dim_table [2, 4, 3]) [False, True, False]
               (wire_decl ''m'' [make_range 1 0 False] [make_range 2 0 False, swapped_range 0 3])])
            (mk_identifier ''m'' (map bit_select [mkconst_int 2 True 32, mkconst_int 1 True 32, mkconst_int 1 True 32]))
            [make_range 1 0 False] [swapped_range 0 3, make_range 2 0 False] 0
            = Inr (new_AstNode AST_RANGE [l, r])
          \<and> eval (\<lambda>_. 0) l = Some 21 \<and> eval (\<lambda>_. 0) r = Some 21"
  using C1_rewrite_access_row_major[of
      "in_module [''m'' \<mapsto> set_multirange (dim_table [2, 4, 3]) [False, True, False]
               (wire_decl ''m'' [make_range 1 0 False] [make_range 2 0 False, swapped_range 0 3])]"
      "mk_identifier ''m'' (map bit_select [mkconst_int 2 True 32, mkconst_int 1 True 32, mkconst_int 1 True 32])"
      "set_multirange (dim_table [2, 4, 3]) [False, True, False]
               (wire_decl ''m'' [make_range 1 0 False] [make_range 2 0 False, swapped_range 0 3])"
      "[3, 4, 2]" "[False, True, False]"
      "[mkconst_int 2 True 32, mkconst_int 1 True 32, mkconst_int 1 True 32]"
      "\<lambda>_. 0" "[2, 1, 1]" "[make_range 1 0 False]" "[swapped_range 0 3, make_range 2 0 False]"]
  by (simp add: in_module_def mk_identifier_def eval_mkconst_int_signed effective_index_def upt_rec)


text \<open>
  Claim C1 as stated fails where a dimension is marked as swapped. The declaration has
  the packed dimensions \<open>[0:3][1:0]\<close>, the outer one swapped; the access \<open>x[1][0]\<close> is in
  bounds. The code complements the outer index and rewrites the access to \<open>[4:4]\<close>,
  whereas the row-major sum of the indices as written is \<open>1 * 2 + 0 = 2\<close>.
\<close>

theorem C1_swapped_dimension_counterexample:
  "\<exists>w l r.
      convert_packed_unpacked_range (\<lambda>g n. n) (in_module Map.empty)
         (wire_decl ''x'' [swapped_range 0 3, make_range 1 0 False] []) = Inr w
    \<and> convert_range (in_module [''x'' \<mapsto> w])
         (mk_identifier ''x'' [bit_select (mkconst_int 1 True 32), bit_select (mkconst_int 0 True 32)])
         (attr_children w ID_packed_ranges) (attr_children w ID_unpacked_ranges) 0
        = Inr (new_AstNode AST_RANGE [l, r])
    \<and> eval (\<lambda>_. 0) l = Some 4 \<and> eval (\<lambda>_. 0) r = Some 4
    \<and> row_major [1, 0] [4, 2] = 2"
proof -
  from flatten_swapped_4x2 obtain w where
    w: "convert_packed_unpacked_range (\<lambda>g n. n) (in_module Map.empty)
          (wire_decl ''x'' [swapped_range 0 3, make_range 1 0 False] []) = Inr w"
    and d: "multirange_dimensions w = [0, 2, 0, 4]"
    and sw: "multirange_swapped w = [False, True]"
    and a: "length (attr_children w ID_packed_ranges) = 2" "attr_children w ID_unpacked_ranges = []"
    by blast
  let ?g = "in_module [''x'' \<mapsto> w]"
  let ?id = "mk_identifier ''x'' [bit_select (mkconst_int 1 True 32), bit_select (mkconst_int 0 True 32)]"
  have "\<exists>l r. convert_range ?g ?id (attr_children w ID_packed_ranges) (attr_children w ID_unpacked_ranges) 0
            = Inr (new_AstNode AST_RANGE [l, r])
          \<and> eval (\<lambda>_. 0) l = Some (row_major (map (effective_index [1, 0] [4, 2] [True, False]) [0 ..< length [4, 2 :: int]]) (drop 0 [4, 2]))
          \<and> eval (\<lambda>_. 0) r = Some (row_major (map (effective_index [1, 0] [4, 2] [True, False]) [0 ..< length [4, 2 :: int]]) (drop 0 [4, 2]))"
    by (rule convert_range_row_major_aux[where wire_node = w and idx = "[mkconst_int 1 True 32, mkconst_int 0 True 32]"])
       (simp_all add: d sw a mk_identifier_def eval_mkconst_int_signed in_module_def)
  moreover have "row_major (map (effective_index [1, 0] [4, 2] [True, False]) [0 ..< length [4, 2 :: int]]) (drop 0 [4, 2]) = 4"
    by (simp add: effective_index_def upt_rec)
  ultimately show ?thesis using w by auto
qed


text \<open>
  Claim C2, as amended. A net with the packed dimensions \<open>[3:0][1:0]\<close> is flattened to
  the single range \<open>[7:0]\<close>; the dimension-size table lists the dimensions in reversed
  declaration order, outermost last, which is \<open>[(0,2),(0,4)]\<close>, stored as
  \<open>[0, 2, 0, 4]\<close>; and the access \<open>x[2][1]\<close> is rewritten to the range \<open>[5:5]\<close>. The
  simplifier of the target is any function that leaves the two constant ranges as they
  are.
\<close>

theorem C2_packed_4x2_scenario:
  assumes m: "current_ast_mod g \<noteq> None"
    and s1: "simp g (make_range 3 0 False) = make_range 3 0 False"
    and s2: "simp g (make_range 1 0 False) = make_range 1 0 False"
  shows "\<exists>w l r.
      convert_packed_unpacked_range simp g
         (wire_decl name [make_range 3 0 False, make_range 1 0 False] []) = Inr w
    \<and> multirange_dimensions w = [0, 2, 0, 4]
    \<and> multirange_swapped w = [False, False]
    \<and> children w = [make_range 7 0 False]
    \<and> convert_range (g\<lparr>current_scope := (current_scope g)(name \<mapsto> w)\<rparr>)
         (mk_identifier name [bit_select (mkconst_int 2 True 32), bit_select (mkconst_int 1 True 32)])
         (attr_children w ID_packed_ranges) (attr_children w ID_unpacked_ranges) 0
        = Inr (new_AstNode AST_RANGE [l, r])
    \<and> eval env l = Some 5 \<and> eval env r = Some 5"
proof -
  from flatten_4x2[of g simp name, OF m s1 s2] obtain w where
    w: "convert_packed_unpacked_range simp g
          (wire_decl name [make_range 3 0 False, make_range 1 0 False] []) = Inr w"
    and d: "multirange_dimensions w = [0, 2, 0, 4]"
    and sw: "multirange_swapped w = [False, False]"
    and c: "children w = [make_range 7 0 False]"
    and a: "length (attr_children w ID_packed_ranges) = 2" "attr_children w ID_unpacked_ranges = []"
    by blast
  let ?g = "g\<lparr>current_scope := (current_scope g)(name \<mapsto> w)\<rparr>"
  let ?id = "mk_identifier name [bit_select (mkconst_int 2 True 32), bit_select (mkconst_int 1 True 32)]"
  have "\<exists>l r. convert_range ?g ?id (attr_children w ID_packed_ranges) (attr_children w ID_unpacked_ranges) 0
            = Inr (new_AstNode AST_RANGE [l, r])
          \<and> eval env l = Some (row_major (map (effective_index [2, 1] [4, 2] [False, False]) [0 ..< length [4, 2 :: int]]) (drop 0 [4, 2]))
          \<and> eval env r = Some (row_major (map (effective_index [2, 1] [4, 2] [False, False]) [0 ..< length [4, 2 :: int]]) (drop 0 [4, 2]))"
    by (rule convert_range_row_major_aux[where wire_node = w and idx = "[mkconst_int 2 True 32, mkconst_int 1 True 32]"])
       (use m in \<open>simp_all add: d sw a mk_identifier_def eval_mkconst_int_signed\<close>)
  moreover have "row_major (map (effective_index [2, 1] [4, 2] [False, False]) [0 ..< length [4, 2 :: int]]) (drop 0 [4, 2]) = 5"
    by (simp add: effective_index_def upt_rec)
  ultimately show ?thesis using w d sw c by auto
qed


theorem C2_packed_4x2_scenario_witness:
  "\<exists>w l r.
      convert_packed_unpacked_range (\<lambda>g n. n) (in_module Map.empty)
         (wire_decl ''x'' [make_range 3 0 False, make_range 1 0 False] []) = Inr w
    \<and> multirange_dimensions w = [0, 2, 0, 4]
    \<and> multirange_swapped w = [False, False]
    \<and> children w = [make_range 7 0 False]
    \<and> convert_range ((in_module Map.empty)\<lparr>current_scope := (current_scope (in_module Map.empty))(''x'' \<mapsto> w)\<rparr>)
         (mk_identifier ''x'' [bit_select (mkconst_int 2 True 32), bit_select (mkconst_int 1 True 32)])
         (attr_children w ID_packed_ranges) (attr_children w ID_unpacked_ranges) 0
        = Inr (new_AstNode AST_RANGE [l, r])
    \<and> eval (\<lambda>_. 0) l = Some 5 \<and> eval (\<lambda>_. 0) r = Some 5"
  using C2_packed_4x2_scenario[of "in_module Map.empty" "\<lambda>g n. n" "''x''" "\<lambda>_. 0"]
  by (simp add: in_module_def)


text \<open>Claim C2 as stated names the table \<open>[(0,4),(0,2)]\<close>; the code does not record
  it.\<close>

theorem C2_dimension_table_counterexample:
  "\<not> (\<exists>w. convert_packed_unpacked_range (\<lambda>g n. n) (in_module Map.empty)
         (wire_decl ''x'' [make_range 3 0 False, make_range 1 0 False] []) = Inr w
       \<and> multirange_dimensions w = [0, 4, 0, 2])"
  using flatten_4x2[of "in_module Map.empty" "\<lambda>g n. n" "''x''"]
  by (auto simp add: in_module_def)


section \<open>The flattening decision (claims C6, C5 and C10)\<close>

lemma convert_packed_unpacked_range_plain:
  assumes "children wire_node = [] \<or> type (hd (children wire_node)) \<noteq> AST_WIRETYPE"
  shows "convert_packed_unpacked_range simp g wire_node =
    (let packed_ranges = attr_children wire_node ID_packed_ranges;
         unpacked_ranges = attr_children wire_node ID_unpacked_ranges
     in if packed_ranges = [] \<and> unpacked_ranges = [] then
          Inr (attr_erase ID_unpacked_ranges (attr_erase ID_packed_ranges wire_node))
        else if convert_node_cond wire_node packed_ranges unpacked_ranges then
          (if multirange_dimensions wire_node = [] then
             bind (add_multirange_attribute simp g wire_node packed_ranges)
               (\<lambda>(wire_node, packed_ranges, packed_size).
             bind (add_multirange_attribute simp g wire_node unpacked_ranges)
               (\<lambda>(wire_node, unpacked_ranges, unpacked_size).
             let size = packed_size * unpacked_size;
                 wire_node = (case map_of (attributes wire_node) ID_packed_ranges of
                     None \<Rightarrow> wire_node
                   | Some a \<Rightarrow> attr_set ID_packed_ranges (set_children packed_ranges a) wire_node);
                 wire_node = (case map_of (attributes wire_node) ID_unpacked_ranges of
                     None \<Rightarrow> wire_node
                   | Some a \<Rightarrow> attr_set ID_unpacked_ranges (set_children unpacked_ranges a) wire_node)
             in Inr (set_children
                  (children wire_node @ [make_range (sint (ucast (size - 1) :: 32 word)) 0 False])
                  wire_node)))
           else Inr wire_node)
        else
          (let ranges = packed_ranges @ unpacked_ranges;
               wire_node =
                 (if type wire_node = AST_WIRE \<and> length packed_ranges = 1 \<and>
                     length unpacked_ranges = 1 \<and> \<not> is_input wire_node \<and> \<not> is_output wire_node
                  then set_type AST_MEMORY wire_node else wire_node)
           in Inr (set_children (children wire_node @ ranges) wire_node)))"
proof -
  have "\<not> (children wire_node \<noteq> [] \<and> type (hd (children wire_node)) = AST_WIRETYPE)"
    using assms by auto
  then show ?thesis unfolding convert_packed_unpacked_range_def by (simp only: if_False bind_simps)
qed

text \<open>
  Claim C6. A declaration (a net, parameter or localparam node) with at most one
  packed and at most one unpacked range, that is no parameter or localparam, carries no
  named type (no \<^verbatim>\<open>wiretype\<close> attribute and no \<^verbatim>\<open>AST_WIRETYPE\<close> child), is no port
  with a range, and is not marked for forced conversion, is not flattened: the tables
  stay as they were, no synthetic range is made (the children gain the declaration's
  own ranges only), and with exactly one packed and one unpacked range the node becomes
  an \<^verbatim>\<open>AST_MEMORY\<close>.
\<close>

theorem C6_simple_declaration_kept:
  assumes "length (attr_children wire_node ID_packed_ranges) \<le> 1"
    and "length (attr_children wire_node ID_unpacked_ranges) \<le> 1"
    and "type wire_node \<in> {AST_WIRE, AST_PARAMETER, AST_LOCALPARAM}"
    and "type wire_node \<noteq> AST_PARAMETER" and "type wire_node \<noteq> AST_LOCALPARAM"
    and "\<not> attr_count wire_node ID_wiretype"
    and "children wire_node = [] \<or> type (hd (children wire_node)) \<noteq> AST_WIRETYPE"
    and "\<not> ((is_input wire_node \<or> is_output wire_node) \<and>
            (attr_children wire_node ID_packed_ranges \<noteq> [] \<or>
             attr_children wire_node ID_unpacked_ranges \<noteq> []))"
    and "map_of (attributes wire_node) ID_force_convert = None \<or>
         integer (the (map_of (attributes wire_node) ID_force_convert)) \<noteq> 1"
  shows "\<exists>w. convert_packed_unpacked_range simp g wire_node = Inr w
      \<and> multirange_dimensions w = multirange_dimensions wire_node
      \<and> multirange_swapped w = multirange_swapped wire_node
      \<and> children w = children wire_node @ attr_children wire_node ID_packed_ranges
                                          @ attr_children wire_node ID_unpacked_ranges
      \<and> (length (attr_children wire_node ID_packed_ranges) = 1 \<and>
         length (attr_children wire_node ID_unpacked_ranges) = 1 \<longrightarrow> type w = AST_MEMORY)"
proof -
  have nc: "\<not> convert_node_cond wire_node (attr_children wire_node ID_packed_ranges)
              (attr_children wire_node ID_unpacked_ranges)"
    using assms by (auto simp add: convert_node_cond_def split: option.splits)
  note pl = convert_packed_unpacked_range_plain[OF assms(7), of simp g]
  show ?thesis
  proof (cases "attr_children wire_node ID_packed_ranges = [] \<and> attr_children wire_node ID_unpacked_ranges = []")
    case True
    then show ?thesis by (simp add: pl)
  next
    case False
    then show ?thesis using nc assms(3-5,8)
      by (auto simp add: pl Let_def)
  qed
qed

theorem C6_simple_declaration_kept_witness:
  "\<exists>w. convert_packed_unpacked_range (\<lambda>g n. n) (in_module Map.empty) mem_decl = Inr w
      \<and> multirange_dimensions w = []
      \<and> multirange_swapped w = []
      \<and> children w = [make_range 7 0 False, make_range 3 0 False]
      \<and> type w = AST_MEMORY"
  using C6_simple_declaration_kept[of mem_decl "\<lambda>g n. n" "in_module Map.empty"]
  by (simp add: mem_decl_def)

text \<open>
  Claim C5 at a declaration that is not flattened: a net with the single packed range
  \<open>[7:0]\<close>. The first call gives it the range child \<open>[7:0]\<close>; the second call appends
  the range again, so the range children are not those of the first call. (A flattened
  declaration is protected by the test \<^verbatim>\<open>multirange_dimensions.empty()\<close>; this branch
  has no such test.)
\<close>

theorem C5_flatten_twice_appends_ranges:
  "\<exists>w1 w2. convert_packed_unpacked_range (\<lambda>g n. n) (in_module Map.empty) byte_decl = Inr w1
     \<and> convert_packed_unpacked_range (\<lambda>g n. n) (in_module Map.empty) w1 = Inr w2
     \<and> children w1 = [make_range 7 0 False]
     \<and> children w2 = [make_range 7 0 False, make_range 7 0 False]"
  by (simp add: byte_decl_def convert_packed_unpacked_range_plain convert_node_cond_def Let_def)


subsection \<open>The walk of \<^verbatim>\<open>check_memories\<close>\<close>

lemma same_but_force_refl [simp]: "same_but_force a a"
  by (simp add: same_but_force_def)

lemma same_but_force_add [simp]:
  "same_but_force (add_force_convert_attribute a v) b = same_but_force a b"
  by (simp add: same_but_force_def add_force_convert_attribute_def)

lemma force_convert_add [simp]:
  "map_of (attributes (add_force_convert_attribute a v)) ID_force_convert = Some (mkconst_int v True 32)"
  "attr_count (add_force_convert_attribute a v) ID_force_convert"
  by (simp_all add: add_force_convert_attribute_def attr_count_def)

lemma flag0_count: "flag0 n \<Longrightarrow> attr_count n ID_force_convert"
  by (simp add: flag0_def attr_count_def)

lemma heap_ok_update:
  "heap_ok ds heap \<Longrightarrow> heap_ok ds (heap[m := add_force_convert_attribute (heap ! m) v])"
  by (cases "m < length heap") (auto simp add: heap_ok_def nth_list_update)

lemma flag0_update:
  assumes "flag0 (heap ! d)"
  shows "flag0 ((heap[m := add_force_convert_attribute (heap ! m) 0]) ! d)"
proof (cases "m = d \<and> m < length heap")
  case True
  then show ?thesis by (simp add: flag0_def)
next
  case False
  then have "(heap[m := add_force_convert_attribute (heap ! m) 0]) ! d = heap ! d"
    by (cases "m < length heap") (auto simp add: list_update_beyond)
  then show ?thesis using assms by simp
qed

lemma flag0_update_unflagged:
  assumes "flag0 (heap ! d)" "\<not> attr_count (heap ! m) ID_force_convert"
  shows "flag0 ((heap[m := add_force_convert_attribute (heap ! m) v]) ! d)"
proof -
  have "m \<noteq> d" using assms flag0_count by auto
  then show ?thesis using assms(1) by simp
qed

subsection \<open>What each step of the visit keeps\<close>

lemma visit_readmemh_keeps:
  assumes "visit_readmemh k (memories, heap) = Inr (memories', heap')"
  shows "memories' = memories"
    and "heap_ok ds heap \<Longrightarrow> heap_ok ds heap'"
    and "flag0 (heap ! d) \<Longrightarrow> flag0 (heap' ! d)"
  using assms
  by (auto simp add: visit_readmemh_def bind_def at_def heap_ok_update flag0_update
      split: if_splits option.splits)

lemma visit_wire_keeps:
  assumes "visit_wire k (memories, heap) = Inr (memories', heap')"
  shows "heap' = heap"
    and "memories name = Some d \<Longrightarrow> memories' name = Some d"
  using assms
  by (auto simp add: visit_wire_def Let_def log_assert_def split: if_splits)

lemma visit_identifier_keeps:
  assumes "visit_identifier k (memories, heap) = Inr (memories', heap')"
  shows "memories' = memories"
    and "heap_ok ds heap \<Longrightarrow> heap_ok ds heap'"
    and "flag0 (heap ! d) \<Longrightarrow> flag0 (heap' ! d)"
  using assms
  by (auto simp add: visit_identifier_def heap_ok_update flag0_update_unflagged
      split: if_splits option.splits)

lemma visit_split:
  assumes "check_memories_visit k st = Inr st'"
  obtains m1 h1 m2 h2 where
    "visit_readmemh k st = Inr (m1, h1)"
    "visit_wire k (m1, h1) = Inr (m2, h2)"
    "visit_identifier k (m2, h2) = Inr st'"
  using assms
  by (auto simp add: check_memories_visit_def bind_def split: sum.splits)

lemma visit_keeps:
  assumes v: "check_memories_visit k (memories, heap) = Inr (memories', heap')"
  shows "heap_ok ds heap \<Longrightarrow> heap_ok ds heap'"
    and "memories name = Some d \<Longrightarrow> memories' name = Some d"
    and "flag0 (heap ! d) \<Longrightarrow> flag0 (heap' ! d)"
proof -
  from v obtain m1 h1 m2 h2 where
    a: "visit_readmemh k (memories, heap) = Inr (m1, h1)"
    and b: "visit_wire k (m1, h1) = Inr (m2, h2)"
    and c: "visit_identifier k (m2, h2) = Inr (memories', heap')"
    by (rule visit_split)
  note ka = visit_readmemh_keeps[OF a] and kb = visit_wire_keeps[OF b]
    and kc = visit_identifier_keeps[OF c]
  show "heap_ok ds heap \<Longrightarrow> heap_ok ds heap'"
    using ka(2) kb(1) kc(2) by auto
  show "memories name = Some d \<Longrightarrow> memories' name = Some d"
    using ka(1) kb(2) kc(1) by auto
  show "flag0 (heap ! d) \<Longrightarrow> flag0 (heap' ! d)"
    using ka(3) kb(1) kc(3) by auto
qed

text \<open>Visiting a net with one packed and one unpacked range binds its name.\<close>

lemma visit_binds_declaration:
  assumes v: "check_memories_visit d (memories, heap) = Inr (memories', heap')"
    and ok: "heap_ok ds heap" and d: "d < length ds"
    and w: "type (ds ! d) = AST_WIRE"
      "length (attr_children (ds ! d) ID_packed_ranges) = 1"
      "length (attr_children (ds ! d) ID_unpacked_ranges) = 1"
  shows "memories' (str (ds ! d)) = Some d"
proof -
  from v obtain m1 h1 m2 h2 where
    a: "visit_readmemh d (memories, heap) = Inr (m1, h1)"
    and b: "visit_wire d (m1, h1) = Inr (m2, h2)"
    and c: "visit_identifier d (m2, h2) = Inr (memories', heap')"
    by (rule visit_split)
  have "heap_ok ds h1" using visit_readmemh_keeps(2)[OF a ok] .
  then have s: "same_but_force (h1 ! d) (ds ! d)" using d by (simp add: heap_ok_def)
  have "m2 (str (ds ! d)) = Some d"
    using b w s by (auto simp add: visit_wire_def same_but_force_def log_assert_def split: if_splits)
  then show ?thesis using visit_identifier_keeps(1)[OF c] by simp
qed

text \<open>Visiting a \<^verbatim>\<open>$readmemh\<close> call that names a bound declaration sets its flag to 0.\<close>

lemma visit_flags_declaration:
  assumes v: "check_memories_visit r (memories, heap) = Inr (memories', heap')"
    and ok: "heap_ok ds heap" and r: "r < length ds" and d: "d < length ds"
    and call: "str (ds ! r) = readmemh" "1 < length (children (ds ! r))"
    and bound: "memories (str (children (ds ! r) ! 1)) = Some d"
  shows "flag0 (heap' ! d)"
proof -
  from v obtain m1 h1 m2 h2 where
    a: "visit_readmemh r (memories, heap) = Inr (m1, h1)"
    and b: "visit_wire r (m1, h1) = Inr (m2, h2)"
    and c: "visit_identifier r (m2, h2) = Inr (memories', heap')"
    by (rule visit_split)
  have s: "same_but_force (heap ! r) (ds ! r)" and l: "length heap = length ds"
    using ok r by (simp_all add: heap_ok_def)
  have "h1 = heap[d := add_force_convert_attribute (heap ! d) 0]"
    using a s call bound by (auto simp add: visit_readmemh_def same_but_force_def)
  then have "flag0 (h1 ! d)" using d l by (simp add: flag0_def)
  then have "flag0 (h2 ! d)" using visit_wire_keeps(1)[OF b] by simp
  then show ?thesis using visit_identifier_keeps(3)[OF c] by simp
qed

subsection \<open>The walk\<close>

lemma walk_append:
  "check_memories_walk (xs @ ys) st = bind (check_memories_walk xs st) (check_memories_walk ys)"
  by (induction xs arbitrary: st) (auto simp add: bind_def split: sum.splits)

lemma walk_appendD:
  assumes "check_memories_walk (xs @ ys) st = Inr st'"
  shows "\<exists>m1 h1. check_memories_walk xs st = Inr (m1, h1) \<and> check_memories_walk ys (m1, h1) = Inr st'"
  using assms by (auto simp add: walk_append bind_def split: sum.splits)

lemma walk_ConsD:
  assumes "check_memories_walk (k # ks) st = Inr st'"
  shows "\<exists>m1 h1. check_memories_visit k st = Inr (m1, h1) \<and> check_memories_walk ks (m1, h1) = Inr st'"
  using assms by (auto simp add: bind_def split: sum.splits)

lemma walk_keeps:
  assumes "check_memories_walk ks (memories, heap) = Inr (memories', heap')"
  shows "heap_ok ds heap \<Longrightarrow> heap_ok ds heap'"
    and "memories name = Some d \<Longrightarrow> memories' name = Some d"
    and "flag0 (heap ! d) \<Longrightarrow> flag0 (heap' ! d)"
  using assms
proof (induction ks arbitrary: memories heap)
  case Nil
  { case 1 then show ?case by simp }
  { case 2 then show ?case by simp }
  { case 3 then show ?case by simp }
next
  case (Cons k ks)
  { case 1
    from 1(2) obtain m1 h1 where a: "check_memories_visit k (memories, heap) = Inr (m1, h1)"
      and b: "check_memories_walk ks (m1, h1) = Inr (memories', heap')"
      by (auto simp add: bind_def split: sum.splits)
    show ?case using Cons.IH(1)[OF _ b] visit_keeps(1)[OF a] 1(1) by blast }
  { case 2
    from 2(2) obtain m1 h1 where a: "check_memories_visit k (memories, heap) = Inr (m1, h1)"
      and b: "check_memories_walk ks (m1, h1) = Inr (memories', heap')"
      by (auto simp add: bind_def split: sum.splits)
    show ?case using Cons.IH(2)[OF _ b] visit_keeps(2)[OF a] 2(1) by blast }
  { case 3
    from 3(2) obtain m1 h1 where a: "check_memories_visit k (memories, heap) = Inr (m1, h1)"
      and b: "check_memories_walk ks (m1, h1) = Inr (memories', heap')"
      by (auto simp add: bind_def split: sum.splits)
    show ?case using Cons.IH(3)[OF _ b] visit_keeps(3)[OF a] 3(1) by blast }
qed


lemma upt_split:
  assumes "i \<le> j" "j \<le> k"
  shows "[i ..< k] = [i ..< j] @ [j ..< k]"
proof -
  have "[i ..< j + (k - j)] = [i ..< j] @ [j ..< j + (k - j)]"
    using assms(1) by (rule upt_add_eq_append)
  then show ?thesis using assms(2) by simp
qed

lemma upt_split3:
  assumes "d < r" "r < n"
  shows "[0 ..< n] = [0 ..< d] @ d # [Suc d ..< r] @ r # [Suc r ..< n]"
proof -
  have "[0 ..< n] = [0 ..< d] @ [d ..< n]" using assms by (intro upt_split) simp_all
  also have "[d ..< n] = [d ..< r] @ [r ..< n]" using assms by (intro upt_split) simp_all
  also have "[d ..< r] = d # [Suc d ..< r]" using assms by (simp add: upt_conv_Cons)
  also have "[r ..< n] = r # [Suc r ..< n]" using assms by (simp add: upt_conv_Cons)
  finally show ?thesis by simp
qed

lemma check_memories_flags_declaration:
  assumes run: "check_memories module_node = Inr heap"
    and dr: "d < r" "r < length (descendants module_node)"
    and decl: "type (descendants module_node ! d) = AST_WIRE"
      "length (attr_children (descendants module_node ! d) ID_packed_ranges) = 1"
      "length (attr_children (descendants module_node ! d) ID_unpacked_ranges) = 1"
    and call: "str (descendants module_node ! r) = readmemh"
      "1 < length (children (descendants module_node ! r))"
      "str (children (descendants module_node ! r) ! 1) = str (descendants module_node ! d)"
  shows "flag0 (heap ! d) \<and> same_but_force (heap ! d) (descendants module_node ! d)"
proof -
  let ?ds = "descendants module_node"
  let ?n = "length ?ds"
  have d: "d < ?n" using dr by simp
  from run obtain mem where w: "check_memories_walk [0 ..< ?n] (Map.empty, ?ds) = Inr (mem, heap)"
    by (auto simp add: check_memories_def bind_def split: sum.splits)
  have sp: "[0 ..< ?n] = [0 ..< d] @ d # [Suc d ..< r] @ r # [Suc r ..< ?n]"
    using upt_split3[OF dr] .
  from w[unfolded sp] obtain m1 h1 where
    w1: "check_memories_walk [0 ..< d] (Map.empty, ?ds) = Inr (m1, h1)"
    and r1: "check_memories_walk (d # [Suc d ..< r] @ r # [Suc r ..< ?n]) (m1, h1) = Inr (mem, heap)"
    using walk_appendD by blast
  from r1 obtain m2 h2 where
    v2: "check_memories_visit d (m1, h1) = Inr (m2, h2)"
    and r2: "check_memories_walk ([Suc d ..< r] @ r # [Suc r ..< ?n]) (m2, h2) = Inr (mem, heap)"
    using walk_ConsD by blast
  from r2 obtain m3 h3 where
    w3: "check_memories_walk [Suc d ..< r] (m2, h2) = Inr (m3, h3)"
    and r3: "check_memories_walk (r # [Suc r ..< ?n]) (m3, h3) = Inr (mem, heap)"
    using walk_appendD by blast
  from r3 obtain m4 h4 where
    v4: "check_memories_visit r (m3, h3) = Inr (m4, h4)"
    and w5: "check_memories_walk [Suc r ..< ?n] (m4, h4) = Inr (mem, heap)"
    using walk_ConsD by blast
  have ok0: "heap_ok ?ds ?ds" by (simp add: heap_ok_def)
  have ok1: "heap_ok ?ds h1" using walk_keeps(1)[OF w1 ok0] .
  have ok2: "heap_ok ?ds h2" using visit_keeps(1)[OF v2 ok1] .
  have ok3: "heap_ok ?ds h3" using walk_keeps(1)[OF w3 ok2] .
  have ok4: "heap_ok ?ds h4" using visit_keeps(1)[OF v4 ok3] .
  have ok5: "heap_ok ?ds heap" using walk_keeps(1)[OF w5 ok4] .
  have b2: "m2 (str (?ds ! d)) = Some d"
    using visit_binds_declaration[OF v2 ok1 d decl] .
  have b3: "m3 (str (?ds ! d)) = Some d" using walk_keeps(2)[OF w3 b2] .
  have f4: "flag0 (h4 ! d)"
    using visit_flags_declaration[OF v4 ok3 dr(2) d call(1,2)] b3 call(3) by simp
  have "flag0 (heap ! d)" using walk_keeps(3)[OF w5 f4] .
  then show ?thesis using ok5 d by (simp add: heap_ok_def)
qed

text \<open>
  Claim C10, as amended. Let a net with exactly one packed and one unpacked range be
  visited (at position \<open>d\<close>) before a \<^verbatim>\<open>$readmemh\<close> call (at position \<open>r\<close>) whose
  second argument names it, and let the walk of \<^verbatim>\<open>check_memories\<close> complete. Then the
  net's \<^verbatim>\<open>force_convert\<close> attribute is the constant 0 at the end of the walk, whatever
  references follow. If moreover the net is neither an input nor an output port and
  carries no named type, \<^verbatim>\<open>convert_packed_unpacked_range\<close> does not flatten it and
  makes it an \<^verbatim>\<open>AST_MEMORY\<close>.
\<close>

theorem C10_readmemh_memory_kept:
  assumes "check_memories module_node = Inr heap"
    and "d < r" and "r < length (descendants module_node)"
    and "type (descendants module_node ! d) = AST_WIRE"
    and "length (attr_children (descendants module_node ! d) ID_packed_ranges) = 1"
    and "length (attr_children (descendants module_node ! d) ID_unpacked_ranges) = 1"
    and "str (descendants module_node ! r) = readmemh"
    and "1 < length (children (descendants module_node ! r))"
    and "str (children (descendants module_node ! r) ! 1) = str (descendants module_node ! d)"
    and "\<not> is_input (descendants module_node ! d)"
    and "\<not> is_output (descendants module_node ! d)"
    and "\<not> attr_count (descendants module_node ! d) ID_wiretype"
    and "children (descendants module_node ! d) = [] \<or>
         type (hd (children (descendants module_node ! d))) \<noteq> AST_WIRETYPE"
  shows "map_of (attributes (heap ! d)) ID_force_convert = Some (mkconst_int 0 True 32)
    \<and> (\<exists>w. convert_packed_unpacked_range simp g (heap ! d) = Inr w
          \<and> type w = AST_MEMORY
          \<and> multirange_dimensions w = multirange_dimensions (descendants module_node ! d)
          \<and> children w = children (descendants module_node ! d)
                @ attr_children (descendants module_node ! d) ID_packed_ranges
                @ attr_children (descendants module_node ! d) ID_unpacked_ranges)"
proof -
  let ?decl = "descendants module_node ! d"
  from check_memories_flags_declaration[OF assms(1-9)]
  have f: "flag0 (heap ! d)" and s: "same_but_force (heap ! d) ?decl" by simp_all
  have fc: "map_of (attributes (heap ! d)) ID_force_convert = Some (mkconst_int 0 True 32)"
    using f by (simp add: flag0_def)
  have eqs: "type (heap ! d) = AST_WIRE" "children (heap ! d) = children ?decl"
    "\<not> is_input (heap ! d)" "\<not> is_output (heap ! d)"
    "multirange_dimensions (heap ! d) = multirange_dimensions ?decl"
    "attr_children (heap ! d) ID_packed_ranges = attr_children ?decl ID_packed_ranges"
    "attr_children (heap ! d) ID_unpacked_ranges = attr_children ?decl ID_unpacked_ranges"
    "\<not> attr_count (heap ! d) ID_wiretype"
    using s assms(4,10,11,12) by (simp_all add: same_but_force_def)
  have pl: "children (heap ! d) = [] \<or> type (hd (children (heap ! d))) \<noteq> AST_WIRETYPE"
    using assms(13) eqs(2) by simp
  have nc: "\<not> convert_node_cond (heap ! d) (attr_children ?decl ID_packed_ranges)
              (attr_children ?decl ID_unpacked_ranges)"
    using assms(5,6) eqs fc by (simp add: convert_node_cond_def)
  have ne: "attr_children ?decl ID_packed_ranges \<noteq> []" using assms(5) by auto
  show ?thesis
    using fc nc ne eqs assms(5,6)
    by (simp add: convert_packed_unpacked_range_plain[OF pl] Let_def)
qed


lemma mem_module_run:
  "(case check_memories mem_module of Inl e \<Rightarrow> False | Inr heap \<Rightarrow> True)"
  by code_simp

lemma mem_module_descendants:
  "length (descendants mem_module) = 5"
  "descendants mem_module ! 0 = mem_decl"
  "descendants mem_module ! Suc 0 = readmemh_call ''mem''"
  by code_simp+

theorem C10_readmemh_memory_kept_witness:
  "\<exists>heap. check_memories mem_module = Inr heap
     \<and> map_of (attributes (heap ! 0)) ID_force_convert = Some (mkconst_int 0 True 32)
     \<and> (\<exists>w. convert_packed_unpacked_range (\<lambda>g n. n) (in_module Map.empty) (heap ! 0) = Inr w
          \<and> type w = AST_MEMORY
          \<and> multirange_dimensions w = []
          \<and> children w = [make_range 7 0 False, make_range 3 0 False])"
proof -
  from mem_module_run obtain heap where run: "check_memories mem_module = Inr heap"
    by (auto split: sum.splits)
  show ?thesis
    using C10_readmemh_memory_kept[of mem_module heap 0 1 "\<lambda>g n. n" "in_module Map.empty"] run
    by (simp add: mem_module_descendants mem_decl_def readmemh_call_def mk_identifier_def)
qed

text \<open>
  Claim C10 as stated fails for a port: the memory is an output of the module. The
  flag is set to 0 as claimed, yet the declaration is flattened to the single range
  \<open>[31:0]\<close>, because a port with a range is always converted.
\<close>

theorem C10_port_memory_counterexample:
  "\<exists>heap w. check_memories port_mem_module = Inr heap
     \<and> map_of (attributes (heap ! 0)) ID_force_convert = Some (mkconst_int 0 True 32)
     \<and> convert_packed_unpacked_range (\<lambda>g n. n) (in_module Map.empty) (heap ! 0) = Inr w
     \<and> type w = AST_WIRE
     \<and> multirange_dimensions w = [0, 8, 0, 4]
     \<and> children w = [make_range 31 0 False]"
proof -
  have "(case check_memories port_mem_module of Inl e \<Rightarrow> None
         | Inr heap \<Rightarrow>
            (case convert_packed_unpacked_range (\<lambda>g n. n) (in_module Map.empty) (heap ! 0) of
               Inl e \<Rightarrow> None
             | Inr w \<Rightarrow> Some (map_of (attributes (heap ! 0)) ID_force_convert, type w,
                              multirange_dimensions w, children w)))
        = Some (Some (mkconst_int 0 True 32), AST_WIRE, [0, 8, 0, 4], [make_range 31 0 False])"
    by code_simp
  then show ?thesis by (auto split: sum.splits)
qed


section \<open>Struct path expansion (claims C3, C9 and C7)\<close>

lemma struct_item_sel [simp]:
  "type (struct_item n l r) = AST_STRUCT_ITEM"
  "str (struct_item n l r) = n"
  "children (struct_item n l r) = []"
  "range_left (struct_item n l r) = l"
  "range_right (struct_item n l r) = r"
  by (simp_all add: struct_item_def)

lemma packed_struct_sel [simp]:
  "type (packed_struct n fs) = AST_STRUCT"
  "str (packed_struct n fs) = n"
  "children (packed_struct n fs) = struct_layout fs"
  "range_left (packed_struct n fs) = - 1"
  "attributes (packed_struct n fs) = []"
  by (simp_all add: packed_struct_def new_AstNode_sel)

lemma field_path_sel [simp]:
  "search_str_of (field_path n) = n"
  "children (field_path n) = []"
  by (simp_all add: field_path_def search_str_of_def)

lemma str_struct_layout: "map str (struct_layout fs) = map fst fs"
  by (induction fs) auto

lemma find_struct_layout:
  assumes "distinct (map fst fs)" "m < length fs"
  shows "find (\<lambda>node. str node = fst (fs ! m)) (struct_layout fs) =
         Some (struct_item (fst (fs ! m))
                 (sum_list (map snd (drop (Suc m) fs)) + snd (fs ! m) - 1)
                 (sum_list (map snd (drop (Suc m) fs))))"
  using assms
proof (induction fs arbitrary: m)
  case Nil
  then show ?case by simp
next
  case (Cons f fs)
  obtain n w where f: "f = (n, w)" by (cases f)
  show ?case
  proof (cases m)
    case 0
    then show ?thesis by (simp add: f)
  next
    case (Suc k)
    then have k: "k < length fs" using Cons.prems by simp
    then have "fst (fs ! k) \<in> set (map fst fs)" by simp
    then have "n \<noteq> fst (fs ! k)" using Cons.prems(1) f by auto
    then show ?thesis using Cons.IH[of k] Cons.prems(1) k Suc by (simp add: f)
  qed
qed

lemma expand_dot_item:
  assumes "find (\<lambda>node. str node = search_str_of dot) (children s) = Some (struct_item n l r)"
    and "children dot = []"
  shows "expand_dot s dot = Inr (new_AstNode AST_RANGE [mkconst_int l True 32, mkconst_int r True 32])"
  using assms by (simp add: elem_bounds_def)

text \<open>
  Claim C3. For a struct of scalar fields of positive widths, laid out as the spec says,
  with distinct field names and a total width that fits a 32-bit \<^verbatim>\<open>int\<close>,
  \<^verbatim>\<open>expand_dot\<close> applied to the path of the field at position \<open>m\<close> returns a range
  whose low bound is the sum of the widths of the fields declared after it and whose
  high bound is that sum plus the field's width minus 1, so that the range has the
  field's width.
\<close>

theorem C3_struct_offset_sum:
  assumes "distinct (map fst members)" and "m < length members"
    and "\<forall>f\<in>set members. 0 < snd f" and "sum_list (map snd members) < 2 ^ 31"
  shows "\<exists>l r. expand_dot (packed_struct name members) (field_path (fst (members ! m)))
              = Inr (new_AstNode AST_RANGE [l, r])
     \<and> eval env r = Some (sum_list (map snd (drop (Suc m) members)))
     \<and> eval env l = Some (sum_list (map snd (drop (Suc m) members)) + snd (members ! m) - 1)"
proof -
  let ?lo = "sum_list (map snd (drop (Suc m) members))"
  let ?w = "snd (members ! m)"
  have pos: "\<And>xs. set xs \<subseteq> set members \<Longrightarrow> 0 \<le> sum_list (map snd xs)"
  proof -
    fix xs :: "(string \<times> int) list"
    assume "set xs \<subseteq> set members"
    then have "\<And>x. x \<in> set (map snd xs) \<Longrightarrow> 0 \<le> x" using assms(3) by fastforce
    then show "0 \<le> sum_list (map snd xs)" by (rule sum_list_nonneg)
  qed
  have lo0: "0 \<le> ?lo" by (rule pos) (rule set_drop_subset)
  have w0: "0 < ?w" using assms(2,3) by simp
  have "sum_list (map snd members) = sum_list (map snd (take m members)) + ?w + ?lo"
    using assms(2) by (subst id_take_nth_drop[OF assms(2)]) simp
  moreover have "0 \<le> sum_list (map snd (take m members))" by (rule pos) (rule set_take_subset)
  ultimately have hi: "?lo + ?w \<le> sum_list (map snd members)" by simp
  have e: "expand_dot (packed_struct name members) (field_path (fst (members ! m))) =
      Inr (new_AstNode AST_RANGE [mkconst_int (?lo + ?w - 1) True 32, mkconst_int ?lo True 32])"
    by (rule expand_dot_item) (simp_all add: find_struct_layout[OF assms(1,2)])
  have "eval env (mkconst_int ?lo True 32) = Some ?lo"
    using lo0 w0 hi assms(4) by (intro eval_mkconst_int_signed) simp_all
  moreover have "eval env (mkconst_int (?lo + ?w - 1) True 32) = Some (?lo + ?w - 1)"
    using lo0 w0 hi assms(4) by (intro eval_mkconst_int_signed) simp_all
  ultimately show ?thesis using e by blast
qed

text \<open>The scenario of the claim: in \<open>{a:[7:0]; b:[3:0]}\<close> the path \<open>.b\<close> gives
  \<open>[3:0]\<close> and the path \<open>.a\<close> gives \<open>[11:4]\<close>.\<close>

theorem C3_struct_offset_sum_witness:
  "(\<exists>l r. expand_dot ab_struct (field_path ''b'') = Inr (new_AstNode AST_RANGE [l, r])
       \<and> eval (\<lambda>_. 0) r = Some 0 \<and> eval (\<lambda>_. 0) l = Some 3)
 \<and> (\<exists>l r. expand_dot ab_struct (field_path ''a'') = Inr (new_AstNode AST_RANGE [l, r])
       \<and> eval (\<lambda>_. 0) r = Some 4 \<and> eval (\<lambda>_. 0) l = Some 11)"
  using C3_struct_offset_sum[of "[(''a'', 8), (''b'', 4)]" 1 "''s_t''" "\<lambda>_. 0"]
    C3_struct_offset_sum[of "[(''a'', 8), (''b'', 4)]" 0 "''s_t''" "\<lambda>_. 0"]
  by (simp add: ab_struct_def)

text \<open>
  Claim C9. When no member of the struct has the name the path asks for,
  \<^verbatim>\<open>expand_dot\<close> ends in \<^verbatim>\<open>log_error\<close>: the run is aborted and no range is returned.
\<close>

theorem C9_unknown_field_is_fatal:
  assumes "search_str_of search_node \<notin> str ` set (children current_struct)"
  shows "expand_dot current_struct search_node = Inl log_error"
proof -
  have "find (\<lambda>node. str node = search_str_of search_node) (children current_struct) = None"
    using assms by (force simp add: find_None_iff)
  then show ?thesis by simp
qed

theorem C9_unknown_field_is_fatal_witness:
  "search_str_of (field_path ''c'') \<notin> str ` set (children ab_struct)
   \<and> expand_dot ab_struct (field_path ''c'') = Inl log_error"
  using C9_unknown_field_is_fatal[of "field_path ''c''" ab_struct]
  by (simp add: ab_struct_def)


lemma set_children_new [simp]: "set_children cs (new_AstNode t cs') = new_AstNode t cs"
  by (simp add: set_children_def new_AstNode_def)

lemma sum_list_widths_nonneg:
  assumes "\<forall>f\<in>set members. 0 < snd f"
  shows "0 \<le> sum_list (map snd (members :: (string \<times> int) list))"
proof -
  have "\<And>x. x \<in> set (map snd members) \<Longrightarrow> 0 \<le> x" using assms by fastforce
  then show ?thesis by (rule sum_list_nonneg)
qed

text \<open>\<^verbatim>\<open>get_max_offset\<close> on a struct laid out as the spec says: the struct node's own
  \<^verbatim>\<open>range_left\<close> is negative, the loop descends to the first member, the most
  significant one, and returns its left bound, which is the total width minus 1.\<close>

lemma get_max_offset_packed_struct:
  assumes "members \<noteq> []" and "\<forall>f\<in>set members. 0 < snd f"
  shows "get_max_offset (packed_struct name members) = Inr (sum_list (map snd members) - 1)"
proof -
  obtain n w rest where m: "members = (n, w) # rest"
    using assms(1) by (cases members) auto
  have "0 \<le> sum_list (map snd rest)"
    using assms(2) by (intro sum_list_widths_nonneg) (simp add: m)
  moreover have "0 < w" using assms(2) by (simp add: m)
  ultimately have "\<not> sum_list (map snd rest) + w - 1 < 0" by simp
  then show ?thesis
    by (simp add: get_max_offset_def log_assert_def packed_struct_def set_str_def
        new_AstNode_def struct_item_def m)
qed

text \<open>
  Claim C7. Let the access combine a field path with a leading index selector into a
  flattened declaration of structs, the struct being laid out as the spec says from
  its fields of positive widths, and let \<^verbatim>\<open>expand_dot\<close> give the range \<open>[l:r]\<close> for the
  path. Then \<^verbatim>\<open>convert_dot\<close> returns the range whose bounds are those of \<open>[l:r]\<close>, each
  increased by \<open>(outer_dimension_size - 1 - index) * struct_element_size\<close>, where the
  outer dimension size is the last entry of the declaration's dimension-size table and
  the struct element size is the bit width of one struct element, the sum of the widths
  of its fields (\<^verbatim>\<open>get_max_offset\<close> finds it as the left bound of the first field,
  plus 1).
\<close>

theorem C7_struct_in_flattened_array:
  assumes "struct_node_of wire_node = Inr (Some (packed_struct struct_name members))"
    and "members \<noteq> []" and "\<forall>f\<in>set members. 0 < snd f"
    and "sum_list (map snd members) < 2 ^ 31"
    and "expand_dot (packed_struct struct_name members) dot = Inr (new_AstNode AST_RANGE [l, r])"
    and "children node = sel # rest" and "type sel = AST_RANGE"
    and "children sel = index # others"
    and "multirange_dimensions wire_node \<noteq> []"
    and "- (2 ^ 31) \<le> last (multirange_dimensions wire_node) - 1"
    and "last (multirange_dimensions wire_node) - 1 < 2 ^ 31"
    and "eval env l = Some a" and "eval env r = Some b" and "eval env index = Some v"
  shows "\<exists>l' r'. convert_dot wire_node node dot = Inr (new_AstNode AST_RANGE [l', r'])
     \<and> eval env l' = Some (a + (last (multirange_dimensions wire_node) - 1 - v)
                                 * sum_list (map snd members))
     \<and> eval env r' = Some (b + (last (multirange_dimensions wire_node) - 1 - v)
                                 * sum_list (map snd members))"
proof -
  let ?size = "sum_list (map snd members)"
  let ?shift = "new_AstNode AST_MUL
             [mkconst_int ?size True 32,
              new_AstNode AST_SUB
                [mkconst_int (last (multirange_dimensions wire_node) - 1) True 32, index]]"
  have g: "get_max_offset (packed_struct struct_name members) = Inr (?size - 1)"
    using assms(2,3) by (rule get_max_offset_packed_struct)
  have s0: "0 \<le> ?size" using assms(3) by (rule sum_list_widths_nonneg)
  have c: "convert_dot wire_node node dot =
      Inr (new_AstNode AST_RANGE [new_AstNode AST_ADD [l, ?shift], new_AstNode AST_ADD [r, ?shift]])"
    using assms(1,4-11) g s0 by (simp add: convert_dot_def Let_def c_int_def)
  have t: "eval env ?shift = Some (?size * (last (multirange_dimensions wire_node) - 1 - v))"
    using assms(4,10,11,14) s0 by (simp add: eval_mkconst_int_signed)
  show ?thesis
    unfolding c
    apply (intro exI conjI)
      apply (rule refl)
    using t assms(12,13) by (simp_all add: mult.commute)
qed

text \<open>Four elements of \<open>{a:[7:0]; b:[3:0]}\<close>, a struct of 12 bits: \<open>s[2].b\<close> is
  \<open>[3:0]\<close> moved up by \<open>(4 - 1 - 2) * 12\<close>, the range \<open>[15:12]\<close>.\<close>

theorem C7_struct_in_flattened_array_witness:
  "\<exists>l' r'. convert_dot struct_array_decl
       (mk_identifier ''s'' [bit_select (mkconst_int 2 True 32), field_path ''b''])
       (field_path ''b'') = Inr (new_AstNode AST_RANGE [l', r'])
     \<and> eval (\<lambda>_. 0) l' = Some 15 \<and> eval (\<lambda>_. 0) r' = Some 12"
  using C7_struct_in_flattened_array[of struct_array_decl "''s_t''" "[(''a'', 8), (''b'', 4)]"
      "field_path ''b''" "mkconst_int 3 True 32" "mkconst_int 0 True 32"
      "mk_identifier ''s'' [bit_select (mkconst_int 2 True 32), field_path ''b'']"
      "bit_select (mkconst_int 2 True 32)" "[field_path ''b'']" "mkconst_int 2 True 32" "[]"
      "\<lambda>_. 0" 3 0 2]
  by (simp add: struct_array_decl_def struct_node_of_def mk_identifier_def bit_select_def
      ab_struct_def expand_dot_item find_struct_layout
      eval_mkconst_int_signed elem_bounds_def)


section \<open>Scope clearing between units (claim C8)\<close>

lemma dom_fold_enum:
  "dom (fold (\<lambda>c sc. sc(str c \<mapsto> c)) cs scope) = dom scope \<union> str ` set cs"
  by (induction cs arbitrary: scope) auto

lemma dom_import_object:
  assumes "import_object pkg ob scope = Inr scope'"
  shows "dom scope' = dom scope \<union> set (import_names pkg ob)"
proof -
  consider (decl) "type ob = AST_TYPEDEF \<or> type ob = AST_PARAMETER \<or> type ob = AST_LOCALPARAM"
    | (enum) "type ob = AST_ENUM" 
    | (other) "\<not> (type ob = AST_TYPEDEF \<or> type ob = AST_PARAMETER \<or> type ob = AST_LOCALPARAM)"
              "type ob \<noteq> AST_ENUM"
    by blast
  then show ?thesis
  proof cases
    case decl
    then obtain c cs where s: "str ob = c # cs"
      and r: "scope' = scope(str pkg @ ''::'' @ cs \<mapsto> ob, str ob \<mapsto> ob)"
      using assms by (auto simp add: import_object_def substr1_def split: list.splits)
    show ?thesis using decl unfolding r by (auto simp add: import_names_def s)
  next
    case enum
    then have "scope' = fold (\<lambda>c sc. sc(str c \<mapsto> c)) (children ob) (scope(str ob \<mapsto> ob))"
      using assms by (simp add: import_object_def)
    then have "dom scope' = dom (scope(str ob \<mapsto> ob)) \<union> str ` set (children ob)"
      by (simp only: dom_fold_enum)
    then show ?thesis using enum by (auto simp add: import_names_def)
  next
    case other
    then show ?thesis using assms by (simp add: import_object_def import_names_def)
  qed
qed

lemma dom_import_objects:
  assumes "import_objects pkg obs scope = Inr scope'"
  shows "dom scope' = dom scope \<union> set (concat (map (import_names pkg) obs))"
  using assms
proof (induction obs arbitrary: scope)
  case Nil
  then show ?case by simp
next
  case (Cons ob obs)
  from Cons.prems obtain s1 where a: "import_object pkg ob scope = Inr s1"
    and b: "import_objects pkg obs s1 = Inr scope'"
    by (auto simp add: bind_def split: sum.splits)
  show ?case using Cons.IH[OF b] dom_import_object[OF a] by auto
qed

lemma dom_import_packages:
  assumes "import_packages top_nodes scope = Inr scope'"
  shows "dom scope' = dom scope \<union> set (package_import_names top_nodes)"
  using assms
proof (induction top_nodes scope rule: import_packages.induct)
  case (1 scope)
  then show ?case by (simp add: package_import_names_def)
next
  case (2 name rest scope)
  then show ?case by simp
next
  case (3 name n rest scope)
  from "3.prems" obtain s1 where
    a: "(if type n = AST_PACKAGE then import_objects n (children n) scope else Inr scope) = Inr s1"
    and b: "import_packages rest s1 = Inr scope'"
    by (auto simp add: bind_def split: sum.splits)
  have d1: "dom s1 = dom scope \<union> set (if type n = AST_PACKAGE
                 then concat (map (import_names n) (children n)) else [])"
    using a dom_import_objects by (auto split: if_splits)
  have "dom scope' = dom s1 \<union> set (package_import_names rest)"
    using "3.IH"[OF a b] .
  then show ?case using d1 by (auto simp add: package_import_names_def)
qed

lemma lower_unit_clears:
  assumes "lower_unit simp fuel top_nodes k g = Inr (top_nodes', g')"
  shows "g' = \<lparr>current_scope = Map.empty, current_ast_mod = None\<rparr>"
  using assms
  by (auto simp add: lower_unit_def bind_def clear_current_scope_def
      split: sum.splits option.splits prod.splits)

subsection \<open>The nodes of a unit\<close>

lemma descendants_children: "descendants n = concat (map (\<lambda>c. c # descendants c) (children n))"
  by (cases n) simp

lemma child_in_descendants: "c \<in> set (children n) \<Longrightarrow> c \<in> set (descendants n)"
  by (subst descendants_children) auto

lemma descendants_trans:
  "c \<in> set (children n) \<Longrightarrow> d \<in> set (descendants c) \<Longrightarrow> d \<in> set (descendants n)"
  by (subst descendants_children) auto

lemma descendants_closed:
  "n \<in> set (descendants unit) \<Longrightarrow> c \<in> set (children n) \<Longrightarrow> c \<in> set (descendants unit)"
proof (induction unit rule: descendants.induct)
  case (1 t s cs a i b ii io sg ct rv rs p rl rr ig bp md ms)
  let ?u = "AstNode t s cs a i b ii io sg ct rv rs p rl rr ig bp md ms"
  from "1.prems"(1) obtain k where k: "k \<in> set cs" and n: "n = k \<or> n \<in> set (descendants k)"
    by auto
  from n show ?case
  proof
    assume "n = k"
    then have "c \<in> set (descendants k)" using "1.prems"(2) by (simp add: child_in_descendants)
    then show ?thesis using k by auto
  next
    assume "n \<in> set (descendants k)"
    then have "c \<in> set (descendants k)" using "1.IH"[OF k] "1.prems"(2) by simp
    then show ?thesis using k by auto
  qed
qed

lemma nodes_of_closed: "n \<in> nodes_of unit \<Longrightarrow> c \<in> set (children n) \<Longrightarrow> c \<in> nodes_of unit"
  using descendants_closed[of n unit c] child_in_descendants[of c unit]
  by (auto simp add: nodes_of_def)

lemma derived_child:
  assumes "derived (nodes_of unit) t" and "c \<in> set (children t)"
  shows "derived (nodes_of unit) c"
  using assms
proof (cases rule: derived.cases)
  case unit_node
  then show ?thesis using assms(2) nodes_of_closed by (auto intro: derived.unit_node)
next
  case built
  then show ?thesis using assms(2) by simp
qed

lemma derived_new:
  "\<not> declares t \<Longrightarrow> \<forall>c \<in> set cs. derived U c \<Longrightarrow> derived U (new_AstNode t cs)"
  by (rule derived.built) (simp_all add: new_AstNode_sel)

lemma derived_mkconst_int: "derived U (mkconst_int v sg w)"
  by (rule derived.built) (simp_all add: mkconst_int_sel declares_def)

lemma derived_declares:
  "derived U t \<Longrightarrow> declares (type t) \<Longrightarrow> t \<in> U"
  by (erule derived.cases) simp_all

lemma elem_bounds_derived:
  "elem_bounds e = Inr (l, r) \<Longrightarrow> derived U l \<and> derived U r"
  by (auto simp add: elem_bounds_def derived_mkconst_int split: if_splits)

lemma apply_struct_range_derived:
  assumes "apply_struct_range e struct_range elem_size left right = Inr (l', r')"
    and "\<forall>c \<in> set (children struct_range). derived U c"
    and "derived U elem_size" "derived U left" "derived U right"
  shows "derived U l' \<and> derived U r'"
proof -
  have n: "\<And>k. k < length (children struct_range) \<Longrightarrow> derived U (children struct_range ! k)"
    using assms(2) by simp
  have d: "\<not> declares AST_ADD" "\<not> declares AST_SUB" "\<not> declares AST_MUL"
    by (simp_all add: declares_def)
  show ?thesis
    using assms(1,3-5) n[of 0] n[of 1] d
    by (auto simp add: apply_struct_range_def log_assert_def Let_def
        derived_mkconst_int intro!: derived_new
        split: if_splits)
qed

lemma expand_dot_derived:
  "derived (nodes_of unit) search_node \<Longrightarrow> expand_dot current_struct search_node = Inr r \<Longrightarrow>
     \<exists>l r'. r = new_AstNode AST_RANGE [l, r'] \<and> derived (nodes_of unit) l \<and> derived (nodes_of unit) r'"
  and "\<forall>c\<in>set cs. derived (nodes_of unit) c \<Longrightarrow>
       (\<forall>x. fst st = Some x \<longrightarrow> derived (nodes_of unit) x) \<Longrightarrow>
       (\<forall>x. snd st = Some x \<longrightarrow> derived (nodes_of unit) x) \<Longrightarrow>
       expand_dot_children elem cs st = Inr st' \<Longrightarrow>
       (\<forall>x. fst st' = Some x \<longrightarrow> derived (nodes_of unit) x) \<and>
       (\<forall>x. snd st' = Some x \<longrightarrow> derived (nodes_of unit) x)"
proof (induction current_struct search_node and elem cs st arbitrary: r and st'
    rule: expand_dot_expand_dot_children.induct)
  case (1 current_struct search_node)
  let ?U = "nodes_of unit"
  from "1.prems"(2) obtain elem left right sub_dot struct_range l1 r1 l2 r2 where
    f: "find (\<lambda>node. str node = search_str_of search_node) (children current_struct) = Some elem"
    and eb: "elem_bounds elem = Inr (left, right)"
    and ch: "expand_dot_children elem (children search_node) (None, None) = Inr (sub_dot, struct_range)"
    and sd: "(case sub_dot of
                None \<Rightarrow> Inr (left, right)
              | Some sd \<Rightarrow> bind (at (children sd) 0) (\<lambda>l.
                           bind (at (children sd) 1) (\<lambda>r. Inr (l, r)))) = Inr (l1, r1)"
    and sr: "(case struct_range of
                None \<Rightarrow> Inr (l1, r1)
              | Some sr \<Rightarrow> apply_struct_range elem sr
                  (new_AstNode AST_ADD [new_AstNode AST_SUB [left, right], mkconst_int 1 True 32])
                  l1 r1) = Inr (l2, r2)"
    and r: "r = new_AstNode AST_RANGE [l2, r2]"
    by (auto simp add: bind_def Let_def split: option.splits sum.splits prod.splits)
  have cs: "\<forall>a\<in>set (children search_node). derived ?U a"
    using "1.prems"(1) derived_child by blast
  have st: "(\<forall>x. fst (sub_dot, struct_range) = Some x \<longrightarrow> derived ?U x) \<and>
            (\<forall>x. snd (sub_dot, struct_range) = Some x \<longrightarrow> derived ?U x)"
    by (rule "1.IH"[OF f eb refl refl cs _ _ ch]) simp_all
  have lr: "derived ?U left" "derived ?U right" using elem_bounds_derived[OF eb] by simp_all
  have d: "\<not> declares AST_ADD" "\<not> declares AST_SUB"
    by (simp_all add: declares_def)
  have es: "derived ?U (new_AstNode AST_ADD [new_AstNode AST_SUB [left, right], mkconst_int 1 True 32])"
    using lr d by (auto intro!: derived_new simp add: derived_mkconst_int)
  have l1: "derived ?U l1 \<and> derived ?U r1"
  proof (cases sub_dot)
    case None
    then show ?thesis using sd lr by simp
  next
    case (Some x)
    then have dx: "derived ?U x" using st by simp
    from sd Some have "l1 \<in> set (children x)" "r1 \<in> set (children x)"
      by (auto simp add: bind_def at_def split: sum.splits if_splits)
    then show ?thesis using dx derived_child by blast
  qed
  have l2: "derived ?U l2 \<and> derived ?U r2"
  proof (cases struct_range)
    case None
    then show ?thesis using sr l1 by simp
  next
    case (Some x)
    then have "derived ?U x" using st by simp
    then have cx: "\<forall>c\<in>set (children x). derived ?U c" using derived_child by blast
    from sr Some have "apply_struct_range elem x
        (new_AstNode AST_ADD [new_AstNode AST_SUB [left, right], mkconst_int 1 True 32])
        l1 r1 = Inr (l2, r2)" by simp
    from apply_struct_range_derived[OF this cx es] l1 show ?thesis by simp
  qed
  show ?case using r l2 by blast
next
  case (2 current_struct_elem st)
  then show ?case by simp
next
  case (3 current_struct_elem c cs st)
  let ?U = "nodes_of unit"
  obtain sub_dot struct_range where st: "st = (sub_dot, struct_range)" by (cases st)
  from "3.prems"(4) obtain sub_dot' struct_range' where
    a: "(if type c = AST_DOT
         then log_assert (sub_dot = None)
               (bind (expand_dot current_struct_elem c) (\<lambda>r. Inr (Some r)))
         else Inr sub_dot) = Inr sub_dot'"
    and b: "(if type c = AST_RANGE then log_assert (struct_range = None) (Inr (Some c))
             else Inr struct_range) = Inr struct_range'"
    and r: "expand_dot_children current_struct_elem cs (sub_dot', struct_range') = Inr st'"
    by (auto simp add: st bind_def split: sum.splits)
  have dc: "derived ?U c" using "3.prems"(1) by simp
  have cs: "\<forall>a\<in>set cs. derived ?U a" using "3.prems"(1) by simp
  have d: "\<not> declares AST_RANGE" by (simp add: declares_def)
  have s1: "\<forall>x. fst (sub_dot', struct_range') = Some x \<longrightarrow> derived ?U x"
  proof (cases "type c = AST_DOT")
    case True
    with a obtain e where n: "sub_dot = None" and e: "expand_dot current_struct_elem c = Inr e"
      and s: "sub_dot' = Some e"
      by (auto simp add: log_assert_def bind_def split: if_splits sum.splits)
    from "3.IH"(1)[OF st[symmetric] True n dc e] obtain l r' where
      "e = new_AstNode AST_RANGE [l, r']" "derived ?U l" "derived ?U r'" by blast
    then have "derived ?U e" using d by (auto intro!: derived_new)
    then show ?thesis using s by simp
  next
    case False
    then show ?thesis using a "3.prems"(2) by (simp add: st)
  qed
  have s2: "\<forall>x. snd (sub_dot', struct_range') = Some x \<longrightarrow> derived ?U x"
    using b dc "3.prems"(3) by (auto simp add: st log_assert_def split: if_splits)
  show ?case by (rule "3.IH"(2)[OF st[symmetric] a b cs s1 s2 r])
qed

lemma convert_dot_derived:
  assumes "derived (nodes_of unit) node" and "dot \<in> set (children node)"
    and "convert_dot wire_node node dot = Inr e"
  shows "derived (nodes_of unit) e"
proof -
  let ?U = "nodes_of unit"
  from assms(3) obtain struct_node expanded node0 where
    ex: "expand_dot struct_node dot = Inr expanded"
    and n0: "at (children node) 0 = Inr node0"
    and e: "(if type node0 = AST_RANGE then
       bind (get_max_offset struct_node) (\<lambda>max_offset.
       bind (c_int (max_offset + 1)) (\<lambda>struct_size_int.
       log_assert (multirange_dimensions wire_node \<noteq> [])
      (bind (c_int (last (multirange_dimensions wire_node) - 1)) (\<lambda>unpacked_range.
       bind (at (children node0) 0) (\<lambda>index.
       bind (at (children expanded) 1) (\<lambda>e1.
       bind (at (children expanded) 0) (\<lambda>e0.
       let shift = new_AstNode AST_MUL
             [mkconst_int struct_size_int True 32,
              new_AstNode AST_SUB [mkconst_int unpacked_range True 32, index]]
       in Inr (set_children
                 [new_AstNode AST_ADD [e0, shift], new_AstNode AST_ADD [e1, shift]]
                 expanded))))))))
     else Inr expanded) = Inr e"
    by (auto simp add: convert_dot_def bind_def log_assert_def
        split: sum.splits option.splits if_splits)
  have dd: "derived ?U dot" using assms(1,2) by (rule derived_child)
  from expand_dot_derived(1)[OF dd ex] obtain l r where
    x: "expanded = new_AstNode AST_RANGE [l, r]" and dl: "derived ?U l" and dr: "derived ?U r"
    by blast
  have d: "\<not> declares AST_RANGE" "\<not> declares AST_ADD" "\<not> declares AST_SUB" "\<not> declares AST_MUL"
    by (simp_all add: declares_def)
  have dx: "derived ?U expanded" unfolding x using dl dr d by (auto intro!: derived_new)
  show ?thesis
  proof (cases "type node0 = AST_RANGE")
    case False
    then show ?thesis using e dx by simp
  next
    case True
    from n0 have "node0 \<in> set (children node)" by (auto simp add: at_def split: if_splits)
    then have d0: "derived ?U node0" using assms(1) derived_child by blast
    from e True obtain a b index where
      i: "at (children node0) 0 = Inr index"
      and r: "e = set_children
                 [new_AstNode AST_ADD [l, new_AstNode AST_MUL
                     [mkconst_int a True 32, new_AstNode AST_SUB [mkconst_int b True 32, index]]],
                  new_AstNode AST_ADD [r, new_AstNode AST_MUL
                     [mkconst_int a True 32, new_AstNode AST_SUB [mkconst_int b True 32, index]]]]
                 expanded"
      by (auto simp add: bind_def log_assert_def Let_def x new_AstNode_sel at_def
          split: sum.splits if_splits)
    from i have "index \<in> set (children node0)" by (auto simp add: at_def split: if_splits)
    then have di: "derived ?U index" using d0 derived_child by blast
    show ?thesis
      unfolding r x using dl dr di d
      by (auto intro!: derived_new simp add: derived_mkconst_int)
  qed
qed

lemma find_in_set: "find P xs = Some x \<Longrightarrow> x \<in> set xs"
  by (auto simp add: find_Some_iff)

text \<open>The beginning of the walk at a node keeps the type of the node, leaves it a name
  among those listed for it, and leaves it children the walk may meet.\<close>

lemma simplify_dot_derived:
  assumes "derived (nodes_of unit) t" and "simplify_dot g t = Inr t1"
  shows "type t1 = type t \<and> str t1 \<in> set (declared_names_of t)
       \<and> (\<forall>c \<in> set (children t1). derived (nodes_of unit) c)"
proof (cases "find (\<lambda>c. type c = AST_DOT) (children t)")
  case None
  then have "t1 = t" using assms(2) by (simp add: simplify_dot_def)
  then show ?thesis using None assms(1) derived_child by (auto simp add: declared_names_of_def)
next
  case (Some dot)
  have dot: "dot \<in> set (children t)" using Some by (rule find_in_set)
  show ?thesis
  proof (cases "current_scope g (str t)")
    case None
    then obtain field where "substr1 (str dot) = Inr field"
      and t1: "t1 = set_children [] (set_str (str t @ ''.'' @ field) t)"
      using assms(2) Some by (auto simp add: simplify_dot_def bind_def split: sum.splits)
    then have "field = tl (str dot)" by (auto simp add: substr1_def split: list.splits)
    then show ?thesis using t1 Some by (simp add: declared_names_of_def)
  next
    case (Some wire_node)
    then obtain expanded where c: "convert_dot wire_node t dot = Inr expanded"
      and t1: "t1 = set_basic_prep True (set_children [expanded] t)"
      using assms(2) \<open>find (\<lambda>c. type c = AST_DOT) (children t) = Some dot\<close>
      by (auto simp add: simplify_dot_def bind_def split: sum.splits)
    have "derived (nodes_of unit) expanded" using assms(1) dot c by (rule convert_dot_derived)
    then show ?thesis
      using t1 \<open>find (\<lambda>c. type c = AST_DOT) (children t) = Some dot\<close>
      by (simp add: declared_names_of_def)
  qed
qed

subsection \<open>The flattening of a declaration keeps its name\<close>

lemma add_multirange_attribute_str:
  "add_multirange_attribute simp g wire_node ranges = Inr (w, rs, sz) \<Longrightarrow> str w = str wire_node"
proof (induction ranges arbitrary: wire_node w rs sz)
  case Nil
  then show ?case by simp
next
  case (Cons r ranges)
  from Cons.prems obtain w1 w' rs' size' where
    "add_multirange_attribute simp g w1 ranges = Inr (w', rs', size')"
    and "str w1 = str wire_node" and "w = w'"
    by (auto simp add: log_assert_def bind_def Let_def split: if_splits sum.splits prod.splits)
  then show ?case using Cons.IH by auto
qed

lemma resolve_wiretype_str:
  assumes "resolve_wiretype simp g wire_node = Inr w" and "\<And>g n. str (simp g n) = str n"
  shows "str w = str wire_node"
  using assms
  by (auto simp add: resolve_wiretype_def Let_def bind_def log_assert_def
      split: if_splits sum.splits option.splits prod.splits)

lemma convert_packed_unpacked_range_str:
  assumes "convert_packed_unpacked_range simp g wire_node = Inr w"
    and "\<And>g n. str (simp g n) = str n"
  shows "str w = str wire_node"
proof -
  from assms(1) obtain w1 where
    a: "(if children wire_node \<noteq> [] \<and> type (hd (children wire_node)) = AST_WIRETYPE
           then resolve_wiretype simp g wire_node else Inr wire_node) = Inr w1"
    and b: "(let packed_ranges = attr_children w1 ID_packed_ranges;
         unpacked_ranges = attr_children w1 ID_unpacked_ranges
     in if packed_ranges = [] \<and> unpacked_ranges = [] then
          Inr (attr_erase ID_unpacked_ranges (attr_erase ID_packed_ranges w1))
        else if convert_node_cond w1 packed_ranges unpacked_ranges then
          (if multirange_dimensions w1 = [] then
             bind (add_multirange_attribute simp g w1 packed_ranges)
               (\<lambda>(wire_node, packed_ranges, packed_size).
             bind (add_multirange_attribute simp g wire_node unpacked_ranges)
               (\<lambda>(wire_node, unpacked_ranges, unpacked_size).
             let size = packed_size * unpacked_size;
                 wire_node = (case map_of (attributes wire_node) ID_packed_ranges of
                     None \<Rightarrow> wire_node
                   | Some a \<Rightarrow> attr_set ID_packed_ranges (set_children packed_ranges a) wire_node);
                 wire_node = (case map_of (attributes wire_node) ID_unpacked_ranges of
                     None \<Rightarrow> wire_node
                   | Some a \<Rightarrow> attr_set ID_unpacked_ranges (set_children unpacked_ranges a) wire_node)
             in Inr (set_children
                  (children wire_node @ [make_range (sint (ucast (size - 1) :: 32 word)) 0 False])
                  wire_node)))
           else Inr w1)
        else
          (let ranges = packed_ranges @ unpacked_ranges;
               wire_node =
                 (if type w1 = AST_WIRE \<and> length packed_ranges = 1 \<and>
                     length unpacked_ranges = 1 \<and> \<not> is_input w1 \<and> \<not> is_output w1
                  then set_type AST_MEMORY w1 else w1)
           in Inr (set_children (children wire_node @ ranges) wire_node))) = Inr w"
    by (auto simp add: convert_packed_unpacked_range_def bind_def split: sum.splits)
  have s1: "str w1 = str wire_node"
    using a resolve_wiretype_str[OF _ assms(2)] by (auto split: if_splits)
  have "str w = str w1"
    using b
    by (auto simp add: Let_def bind_def dest!: add_multirange_attribute_str
        split: if_splits sum.splits prod.splits option.splits)
  then show ?thesis using s1 by simp
qed

subsection \<open>What the walk enters in the scope table\<close>

text \<open>The \<^verbatim>\<open>switch\<close> at the end of the walk at a node drops no entry and enters at most
  the name of the node, and this only for a node of a declaring type.\<close>

lemma simplify_node_scope:
  assumes "simplify_node simp parent_node n g = Inr (n', g')"
    and "\<And>g n. str (simp g n) = str n"
  shows "dom (current_scope g) \<subseteq> dom (current_scope g')
       \<and> dom (current_scope g') \<subseteq> dom (current_scope g) \<union> (if declares (type n) then {str n} else {})
       \<and> current_ast_mod g' = current_ast_mod g"
proof -
  consider (a) "type n = AST_TYPEDEF \<or> type n = AST_ENUM"
    | (b) "type n = AST_WIRE \<or> type n = AST_PARAMETER \<or> type n = AST_LOCALPARAM"
    | (c) "type n = AST_IDENTIFIER"
    | (d) "type n = AST_STRUCT"
    | (e) "\<not> declares (type n)" "type n \<noteq> AST_IDENTIFIER" "type n \<noteq> AST_STRUCT"
    by (auto simp add: declares_def)
  then show ?thesis
  proof cases
    case a
    then have "g' = declare_node n g" using assms(1) by (auto simp add: simplify_node_def)
    then show ?thesis using a by (auto simp add: declare_node_def declares_def)
  next
    case b
    then obtain w where "convert_packed_unpacked_range simp (declare_node n g) n = Inr w"
      and g': "g' = declare_node w g"
      using assms(1) by (auto simp add: simplify_node_def bind_def split: sum.splits)
    then have "str w = str n" using assms(2) convert_packed_unpacked_range_str by blast
    then show ?thesis using b g' by (auto simp add: declare_node_def declares_def)
  next
    case c
    then have "g' = g" using assms(1)
      by (auto simp add: simplify_node_def log_assert_def bind_def Let_def
          split: if_splits option.splits sum.splits)
    then show ?thesis by simp
  next
    case d
    then show ?thesis using assms(1)
      by (auto simp add: simplify_node_def Let_def declares_def
          split: if_splits option.splits)
  next
    case e
    then have "g' = g" using assms(1) by (auto simp add: simplify_node_def declares_def)
    then show ?thesis by simp
  qed
qed

lemma simplify_node_declared:
  assumes "simplify_node simp parent_node n g = Inr (n', g')"
    and "\<And>g n. str (simp g n) = str n"
    and "type n = AST_WIRE \<or> type n = AST_PARAMETER \<or> type n = AST_LOCALPARAM"
  shows "dom (current_scope g') = dom (current_scope (declare_node n g))"
proof -
  from assms(1,3) obtain w where "convert_packed_unpacked_range simp (declare_node n g) n = Inr w"
    and g': "g' = declare_node w g"
    by (auto simp add: simplify_node_def bind_def split: sum.splits)
  then have "str w = str n" using assms(2) convert_packed_unpacked_range_str by blast
  then show ?thesis using g' by (simp add: declare_node_def)
qed

lemma scope_chain:
  assumes "A \<subseteq> B \<and> B \<subseteq> A \<union> N \<and> m1 = m0" and "B \<subseteq> C \<and> C \<subseteq> B \<union> D \<and> m2 = m1"
    and "D \<subseteq> N"
  shows "A \<subseteq> C \<and> C \<subseteq> A \<union> N \<and> m2 = m0"
  using assms by auto

lemma declared_in_unit_names:
  "t \<in> nodes_of unit \<Longrightarrow> declares (type t) \<Longrightarrow> x \<in> set (declared_names_of t) \<Longrightarrow>
   x \<in> set (unit_names unit)"
  by (auto simp add: unit_names_def nodes_of_def)

text \<open>The walk over nodes of a unit drops no entry of the scope table and enters only
  names of the unit.\<close>

lemma simplify_scope:
  shows "derived (nodes_of unit) t \<Longrightarrow> simplify simp fuel t parent g = Inr (t', g') \<Longrightarrow>
       (\<And>g n. str (simp g n) = str n) \<Longrightarrow>
       dom (current_scope g) \<subseteq> dom (current_scope g')
     \<and> dom (current_scope g') \<subseteq> dom (current_scope g) \<union> set (unit_names unit)
     \<and> current_ast_mod g' = current_ast_mod g"
  and "\<forall>c \<in> set cs. derived (nodes_of unit) c \<Longrightarrow>
       simplify_children simp fuel cs parent' g = Inr (cs', g') \<Longrightarrow>
       (\<And>g n. str (simp g n) = str n) \<Longrightarrow>
       dom (current_scope g) \<subseteq> dom (current_scope g')
     \<and> dom (current_scope g') \<subseteq> dom (current_scope g) \<union> set (unit_names unit)
     \<and> current_ast_mod g' = current_ast_mod g"
proof (induction simp fuel t parent g and simp fuel cs parent' g arbitrary: t' g' and cs' g'
    rule: simplify_simplify_children.induct)
  case (1 simp current_node parent_node g)
  then show ?case by simp
next
  case (2 simp fuel current_node parent_node g)
  from "2.prems"(2) obtain t1 cs g1 where
    a: "simplify_dot g current_node = Inr t1"
    and b: "simplify_children simp fuel (children t1) t1 g = Inr (cs, g1)"
    and c: "simplify_node simp parent_node (set_children cs t1) g1 = Inr (t', g')"
    by (auto simp add: bind_def split: sum.splits)
  note p = simplify_dot_derived[OF "2.prems"(1) a]
  have ch: "\<forall>a\<in>set (children t1). derived (nodes_of unit) a" using p by simp
  note i = "2.IH"[OF a ch b "2.prems"(3)]
  define D where "D = (if declares (type (set_children cs t1))
                        then {str (set_children cs t1)} else {})"
  note n = simplify_node_scope[OF c "2.prems"(3), folded D_def]
  have "D \<subseteq> set (unit_names unit)"
  proof (cases "declares (type current_node)")
    case True
    then have "current_node \<in> nodes_of unit" using "2.prems"(1) derived_declares by blast
    then have "str t1 \<in> set (unit_names unit)"
      using True p declared_in_unit_names by blast
    then show ?thesis by (simp add: D_def)
  next
    case False
    then show ?thesis using p by (simp add: D_def)
  qed
  with i n show ?case by (rule scope_chain)
next
  case (3 simp fuel parent_node g)
  then show ?case by simp
next
  case (4 simp fuel c cs parent_node g)
  from "4.prems"(2) obtain c1 g1 cs1 where
    a: "simplify simp fuel c (Some parent_node) g = Inr (c1, g1)"
    and b: "simplify_children simp fuel cs parent_node g1 = Inr (cs1, g')"
    by (auto simp add: bind_def split: sum.splits prod.splits)
  have dc: "derived (nodes_of unit) c" and dcs: "\<forall>c \<in> set cs. derived (nodes_of unit) c"
    using "4.prems"(1) by simp_all
  note i = "4.IH"(1)[OF dc a "4.prems"(3)]
  note j = "4.IH"(2)[OF a refl dcs b "4.prems"(3)]
  show ?case using i j by (rule scope_chain) simp
qed

lemma simplify_children_append:
  assumes "simplify_children simp fuel (xs @ ys) p g = Inr (r, g')"
  shows "\<exists>xs' g1 ys'. simplify_children simp fuel xs p g = Inr (xs', g1)
       \<and> simplify_children simp fuel ys p g1 = Inr (ys', g')"
  using assms
proof (induction xs arbitrary: g r)
  case Nil
  then show ?case by simp
next
  case (Cons x xs)
  from Cons.prems obtain x1 g1 r1 where
    a: "simplify simp fuel x (Some p) g = Inr (x1, g1)"
    and b: "simplify_children simp fuel (xs @ ys) p g1 = Inr (r1, g')"
    by (auto simp add: bind_def split: sum.splits prod.splits)
  from Cons.IH[OF b] obtain xs' g2 ys' where
    "simplify_children simp fuel xs p g1 = Inr (xs', g2)"
    "simplify_children simp fuel ys p g2 = Inr (ys', g')" by blast
  then show ?case using a by (auto simp add: bind_def)
qed

text \<open>Every state the walk passes lies between the state it started in and the state
  it ends in.\<close>

lemma passes_between:
  assumes "passes simp fuel t parent g g_at"
    and "derived (nodes_of unit) t"
    and "simplify simp fuel t parent g = Inr (t', g')"
    and "\<And>g n. str (simp g n) = str n"
  shows "dom (current_scope g) \<subseteq> dom (current_scope g_at)
       \<and> dom (current_scope g_at) \<subseteq> dom (current_scope g')"
  using assms
proof (induction arbitrary: t' g' rule: passes.induct)
  case (start fuel current_node parent_node g)
  then show ?case using simplify_scope(1) by blast
next
  case (finish fuel current_node parent_node g node' g_at)
  then show ?case using simplify_scope(1) by fastforce
next
  case (flattening g current_node node1 fuel cs g1 parent_node)
  from flattening.prems(2) flattening.hyps(1,2) have
    n: "simplify_node simp parent_node (set_children cs node1) g1 = Inr (t', g')"
    by (auto simp add: bind_def split: sum.splits)
  note p = simplify_dot_derived[OF flattening.prems(1) flattening.hyps(1)]
  have d: "\<forall>x \<in> set (children node1). derived (nodes_of unit) x" using p by simp
  note s1 = simplify_scope(2)[OF d flattening.hyps(2) flattening.prems(3)]
  have t: "type (set_children cs node1) = AST_WIRE \<or> type (set_children cs node1) = AST_PARAMETER
         \<or> type (set_children cs node1) = AST_LOCALPARAM"
    using flattening.hyps(3) by simp
  note s2 = simplify_node_declared[OF n flattening.prems(3) t]
  have "dom (current_scope g1) \<subseteq> dom (current_scope (declare_node (set_children cs node1) g1))"
    by (auto simp add: declare_node_def)
  then show ?case using s1 s2 by blast
next
  case (child g current_node node1 before c after fuel before' g1 g_at parent_node)
  from child.prems(2) child.hyps(1) obtain cs g3 where
    b: "simplify_children simp fuel (children node1) node1 g = Inr (cs, g3)"
    and n: "simplify_node simp parent_node (set_children cs node1) g3 = Inr (t', g')"
    by (auto simp add: bind_def split: sum.splits)
  from simplify_children_append[OF b[unfolded child.hyps(2)]] child.hyps(3)
  obtain rest where r: "simplify_children simp fuel (c # after) node1 g1 = Inr (rest, g3)"
    by auto
  then obtain c1 g2 after' where
    w: "simplify simp fuel c (Some node1) g1 = Inr (c1, g2)"
    and a: "simplify_children simp fuel after node1 g2 = Inr (after', g3)"
    by (auto simp add: bind_def split: sum.splits prod.splits)
  note p = simplify_dot_derived[OF child.prems(1) child.hyps(1)]
  have d: "\<forall>x \<in> set before. derived (nodes_of unit) x" "derived (nodes_of unit) c"
    "\<forall>x \<in> set after. derived (nodes_of unit) x"
    using p child.hyps(2) by simp_all
  note s1 = simplify_scope(2)[OF d(1) child.hyps(3) child.prems(3)]
  note s2 = child.IH[OF d(2) w child.prems(3)]
  note s3 = simplify_scope(2)[OF d(3) a child.prems(3)]
  note s4 = simplify_node_scope[OF n child.prems(3)]
  have "dom (current_scope g) \<subseteq> dom (current_scope g_at)" using s1 s2 by blast
  moreover have "dom (current_scope g_at) \<subseteq> dom (current_scope g')"
  proof -
    have "dom (current_scope g_at) \<subseteq> dom (current_scope g2)" using s2 by simp
    also have "\<dots> \<subseteq> dom (current_scope g3)" using s3 by simp
    also have "\<dots> \<subseteq> dom (current_scope g')" using s4 by simp
    finally show ?thesis .
  qed
  ultimately show ?case by simp
qed



lemma Inr_projr: "\<not> isl r \<Longrightarrow> r = Inr (fst (projr r), snd (projr r))"
  by (cases r) simp_all

lemma mod_b_names: "(backslash # ''W'') \<notin> str ` set (mod_b # descendants mod_b)"
  by code_simp




section \<open>Module specialization (claim C4)\<close>

subsection \<open>The registry and the children of an entity\<close>

lemma reg_index_found: "map_of reg k = Some p \<Longrightarrow> reg_index reg k = (reg, p)"
  by (simp add: reg_index_def)

lemma reg_index_fresh: "map_of reg k = None \<Longrightarrow> reg_index reg k = (reg @ [(k, None)], None)"
  by (simp add: reg_index_def)

lemma map_of_reg_assign:
  "map_of (reg_assign reg k p) k' = (if k' = k then Some (Some p) else map_of reg k')"
  by (simp add: reg_assign_def update_conv)

lemma reg_assign_same: "map_of reg k = Some (Some p) \<Longrightarrow> reg_assign reg k p = reg"
  by (simp add: reg_assign_def update_triv)

lemma module_name_of_neq_type:
  "module_parameters \<noteq> [] \<Longrightarrow> module_name_of sha1 type_name module_parameters \<noteq> type_name"
proof
  assume ne: "module_parameters \<noteq> []"
    and eq: "module_name_of sha1 type_name module_parameters = type_name"
  have "length (module_name_of sha1 type_name module_parameters) > length type_name"
    using ne by (simp add: module_name_of_def)
  then show False using eq by simp
qed

text \<open>The type name of a module with a definition name starts with a backslash.\<close>

lemma module_type_name_backslash:
  "def_name \<noteq> [] \<Longrightarrow> \<exists>rest. module_type_name def_name = backslash # rest"
  by (simp add: module_type_name_def strip_package_name_def sanitize_symbol_name_def
      split: option.splits)

text \<open>Two parameter texts that differ give different names: both are embedded, or both
  are hashed and the digests differ, or one is embedded behind the backslash of the
  type name where the other has the \<open>$\<close> before its digest.\<close>

lemma module_name_of_inj:
  assumes "ps' \<noteq> ps"
    and "60 < length ps \<and> 60 < length ps' \<longrightarrow> sha1 ps' \<noteq> sha1 ps"
    and "type_name = backslash # rest"
  shows "module_name_of sha1 type_name ps' \<noteq> module_name_of sha1 type_name ps"
  using assms by (auto simp add: module_name_of_def backslash_def split: if_splits)

lemma add_or_replace_child_children:
  "add_or_replace_child parent child = Inr parent' \<Longrightarrow> \<exists>cs. parent' = set_children cs parent"
  by (auto simp add: add_or_replace_child_def Let_def bind_def
      split: option.splits if_splits sum.splits)

lemma add_or_replace_children_children:
  "add_or_replace_children parent nodes = Inr parent' \<Longrightarrow>
   str parent' = str parent \<and> attributes parent' = attributes parent"
proof (induction nodes arbitrary: parent)
  case Nil
  then show ?case by simp
next
  case (Cons child rest)
  from Cons.prems obtain p1 where
    a: "add_or_replace_child parent child = Inr p1"
    and b: "add_or_replace_children p1 rest = Inr parent'"
    by (auto simp add: bind_def split: sum.splits)
  from add_or_replace_child_children[OF a] obtain cs where "p1 = set_children cs parent" ..
  then show ?case using Cons.IH[OF b] by simp
qed

subsection \<open>The second visit of the parameter assignments\<close>

text \<open>With the type name registered, the simplification of an assignment leaves the
  shared state as it is, and a constant assignment is not touched.\<close>

lemma simplify_assigned_frame:
  assumes "simplify_assigned simplify_parameter type_name p node shared = Inr (node', shared')"
    and "map_of (shared_top_nodes shared) type_name = Some r"
  shows "shared' = shared \<and> simplified_from node node'"
  using assms
  by (auto simp add: simplify_assigned_def simplified_from_def bind_def reg_index_found
      at_def hd_conv_nth log_assert_def split: sum.splits if_splits)

lemma set_children_same: "\<exists>cs. m = set_children cs m"
  by (rule exI[of _ "children m"]) (cases m, simp add: set_children_def)

lemma set_parameter_children:
  "set_parameter cell_instance node m = Inr (paraset, m') \<Longrightarrow> \<exists>cs. m' = set_children cs m"
  by (auto simp add: set_parameter_def Let_def bind_def set_children_same
      dest!: add_or_replace_child_children
      split: option.splits if_splits sum.splits)

lemma set_parameters_str:
  "set_parameters cell_instance nodes m = Inr m' \<Longrightarrow>
   str m' = str m \<and> attributes m' = attributes m"
proof (induction nodes arbitrary: m)
  case Nil
  then show ?case by simp
next
  case (Cons node nodes)
  from Cons.prems obtain paraset m1 where
    a: "set_parameter cell_instance node m = Inr (paraset, m1)"
    and b: "set_parameters cell_instance nodes m1 = Inr m'"
    by (auto simp add: bind_def split: sum.splits)
  from set_parameter_children[OF a] obtain cs where "m1 = set_children cs m" ..
  then show ?case using Cons.IH[OF b] by simp
qed

lemma apply_parameter_step:
  assumes "apply_parameter simplify_parameter type_name p cell_instance node (cell, shared) =
             Inr (cell', shared')"
    and "map_of (shared_top_nodes shared) type_name = Some r"
  shows "\<exists>node' paraset m'. simplified_from node node'
       \<and> p < length (shared_store shared)
       \<and> set_parameter cell_instance node' (shared_store shared ! p) = Inr (paraset, m')
       \<and> shared' = assign_node p m' shared"
proof -
  from assms(1) obtain node' shared1 m paraset m' where
    s: "simplify_assigned simplify_parameter type_name p node shared = Inr (node', shared1)"
    and d: "deref shared1 p = Inr m"
    and t: "set_parameter cell_instance node' m = Inr (paraset, m')"
    and e: "shared' = assign_node p m' shared1"
    by (auto simp add: apply_parameter_def bind_def split: sum.splits prod.splits)
  from simplify_assigned_frame[OF s assms(2)] have f: "shared1 = shared" "simplified_from node node'"
    by simp_all
  from d f have "p < length (shared_store shared)" "m = shared_store shared ! p"
    by (auto simp add: deref_def split: if_splits)
  then show ?thesis using f t e by blast
qed

text \<open>The whole visit: the shared state changes at the entity only, whose node is what
  \<open>set_parameters\<close> makes of it with the assignments as simplified.\<close>

lemma apply_parameters_content:
  assumes "apply_parameters simplify_parameter type_name p cell_instance nodes (cell, shared) =
             Inr (cell', shared')"
    and "map_of (shared_top_nodes shared) type_name = Some r"
    and "p < length (shared_store shared)"
  shows "\<exists>nodes' m'. list_all2 simplified_from nodes nodes'
       \<and> set_parameters cell_instance nodes' (shared_store shared ! p) = Inr m'
       \<and> shared' = assign_node p m' shared"
  using assms
proof (induction nodes arbitrary: cell shared)
  case Nil
  then show ?case by (simp add: assign_node_def)
next
  case (Cons node nodes)
  from Cons.prems(1) obtain cell1 shared1 where
    a: "apply_parameter simplify_parameter type_name p cell_instance node (cell, shared) =
          Inr (cell1, shared1)"
    and b: "apply_parameters simplify_parameter type_name p cell_instance nodes (cell1, shared1) =
          Inr (cell', shared')"
    by (auto simp add: bind_def split: sum.splits)
  from apply_parameter_step[OF a Cons.prems(2)] obtain node' paraset m1 where
    n: "simplified_from node node'"
    and t: "set_parameter cell_instance node' (shared_store shared ! p) = Inr (paraset, m1)"
    and e: "shared1 = assign_node p m1 shared"
    by blast
  have r1: "map_of (shared_top_nodes shared1) type_name = Some r"
    using Cons.prems(2) e by (simp add: assign_node_def)
  have l1: "p < length (shared_store shared1)"
    using Cons.prems(3) e by (simp add: assign_node_def)
  from Cons.IH[OF b r1 l1] obtain nodes' m' where
    ns: "list_all2 simplified_from nodes nodes'"
    and ts: "set_parameters cell_instance nodes' (shared_store shared1 ! p) = Inr m'"
    and es: "shared' = assign_node p m' shared1"
    by blast
  have m1: "shared_store shared1 ! p = m1"
    using Cons.prems(3) e by (simp add: assign_node_def)
  have "list_all2 simplified_from (node # nodes) (node' # nodes')" using n ns by simp
  moreover have "set_parameters cell_instance (node' # nodes') (shared_store shared ! p) = Inr m'"
    using t ts m1 by (simp add: bind_def)
  moreover have "shared' = assign_node p m' shared"
    using es e by (simp add: assign_node_def)
  ultimately show ?case by blast
qed

subsection \<open>The entity an instance refers to\<close>

lemma find_module_fresh:
  assumes "map_of (shared_top_nodes shared) type_name = Some (Some g)"
    and "g < length (shared_store shared)"
    and "module_parameters \<noteq> []"
    and "module_name \<noteq> type_name"
    and "map_of (shared_top_nodes shared) module_name = None"
  shows "find_module type_name module_name module_parameters cell_instance shared =
     Inr (length (shared_store shared), cell_instance,
          shared\<lparr>shared_top_nodes :=
                   reg_assign (shared_top_nodes shared @ [(module_name, None)]) module_name
                     (length (shared_store shared)),
                 shared_store := shared_store shared @
                   [(if cell_instance then attr_set ID_whitebox (mkconst_int 1 False 1) else id)
                      (set_str module_name (shared_store shared ! g))]\<rparr>)"
  using assms
  by (simp add: find_module_def reg_index_fresh reg_index_found bind_def deref_def new_node_def
      assign_node_def Let_def nth_append)

lemma find_module_found:
  assumes "map_of (shared_top_nodes shared) module_name = Some (Some p)"
    and "p < length (shared_store shared)"
  shows "find_module type_name module_name module_parameters cell_instance shared =
     Inr (p, cell_instance,
          shared\<lparr>shared_store := (shared_store shared)
                   [p := (if cell_instance then attr_set ID_whitebox (mkconst_int 1 False 1) else id)
                           (set_str module_name (shared_store shared ! p))]\<rparr>)"
  using assms
  by (simp add: find_module_def reg_index_found bind_def deref_def
      assign_node_def Let_def reg_assign_same)

lemma keep_module_str: "str (keep_module m) = str m"
  by (simp add: keep_module_def Let_def attr_set_def attr_erase_def split: option.splits)

lemma make_cell_head:
  "children c \<noteq> [] \<Longrightarrow> type (hd (children c)) = AST_CELLTYPE \<Longrightarrow>
   children (make_cell ports c m) \<noteq> [] \<and> hd (children (make_cell ports c m)) = hd (children c)"
  by (simp add: make_cell_def)

text \<open>After the entity has been found, the branch changes the shared state at the
  entity only, and the cell names the entity.\<close>

lemma process_module_instance_frame:
  assumes run: "process_module_instance sha1 simplify_parameter type_name name param_assigns
             cell_instance body ports shared = Inr (cell, shared')"
    and ps: "module_parameters_of simplify_parameter shared type_name param_assigns = Inr ps"
    and fm: "find_module type_name (module_name_of sha1 type_name ps) ps cell_instance shared =
           Inr (p, cell_instance', shared0)"
    and reg: "map_of (shared_top_nodes shared0) type_name = Some r"
    and valid: "p < length (shared_store shared0)"
  shows "\<exists>nodes m m'. list_all2 simplified_from param_assigns nodes
       \<and> set_parameters cell_instance' nodes (shared_store shared0 ! p) = Inr m
       \<and> add_or_replace_children (keep_module m) body = Inr m'
       \<and> shared' = assign_node p m' shared0
       \<and> children cell \<noteq> []
       \<and> type (hd (children cell)) = AST_CELLTYPE
       \<and> str (hd (children cell)) = str (shared_store shared0 ! p)"
proof -
  let ?c0 = "set_str name (new_AstNode AST_CELL [])"
  from run ps fm obtain cell1 shared1 m2 where
    ap: "apply_parameters simplify_parameter type_name p cell_instance' param_assigns
           (?c0, shared0) = Inr (cell1, shared1)"
    and body: "add_or_replace_children (keep_module (shared_store shared1 ! p)) body = Inr m2"
    and cell: "cell = make_cell ports
                 (set_children (set_str (str (keep_module (shared_store shared1 ! p)))
                                  (new_AstNode AST_CELLTYPE []) # children cell1) cell1) m2"
    and sh: "shared' = (assign_node p m2
                 ((assign_node p (keep_module (shared_store shared1 ! p)) shared1)
                    \<lparr>current_top_node := Some p\<rparr>))\<lparr>current_top_node := current_top_node shared1\<rparr>"
    by (auto simp add: process_module_instance_def bind_def Let_def deref_def
        split: sum.splits prod.splits if_splits)
  from apply_parameters_content[OF ap reg valid] obtain nodes m where
    ns: "list_all2 simplified_from param_assigns nodes"
    and ts: "set_parameters cell_instance' nodes (shared_store shared0 ! p) = Inr m"
    and e: "shared1 = assign_node p m shared0"
    by blast
  have m: "shared_store shared1 ! p = m" using e valid by (simp add: assign_node_def)
  have sm: "str m = str (shared_store shared0 ! p)" using set_parameters_str[OF ts] by simp
  let ?c1 = "set_children (set_str (str (keep_module m))
                                  (new_AstNode AST_CELLTYPE []) # children cell1) cell1"
  have h: "children ?c1 \<noteq> []" "type (hd (children ?c1)) = AST_CELLTYPE"
    "str (hd (children ?c1)) = str (shared_store shared0 ! p)"
    using sm by (simp_all add: keep_module_str new_AstNode_sel)
  note mc = make_cell_head[OF h(1) h(2), of ports m2]
  have s: "shared' = assign_node p m2 shared0"
    unfolding sh e by (simp add: assign_node_def)
  have c: "children cell \<noteq> []" "type (hd (children cell)) = AST_CELLTYPE"
    "str (hd (children cell)) = str (shared_store shared0 ! p)"
    using mc h unfolding cell m by simp_all
  show ?thesis using ns ts body[unfolded m] s c by blast
qed

text \<open>What the branch makes of an entity's node differs from the node, renamed and
  marked, in the children only.\<close>

lemma attr_set_set_children:
  "attr_set k v (set_children cs m) = set_children cs (attr_set k v m)"
  by (simp add: attr_set_def set_children_def set_attributes_def)

lemma attr_erase_set_children:
  "attr_erase k (set_children cs m) = set_children cs (attr_erase k m)"
  by (simp add: attr_erase_def set_children_def set_attributes_def)

lemma keep_module_set_children:
  "keep_module (set_children cs m) = set_children cs (keep_module m)"
proof -
  let ?k = "attr_set ID_keep (mkconst_int 1 False 1)"
  have a: "?k (set_children cs m) = set_children cs (?k m)" by (rule attr_set_set_children)
  show ?thesis
  proof (cases "map_of (attributes (?k m)) ID_partial")
    case None
    then show ?thesis unfolding keep_module_def Let_def a by simp
  next
    case (Some attr)
    then show ?thesis
      unfolding keep_module_def Let_def a
      by (simp add: attr_erase_set_children del: attr_set_sel)
  qed
qed

lemma set_parameters_children:
  "set_parameters cell_instance nodes m = Inr m' \<Longrightarrow> \<exists>cs. m' = set_children cs m"
proof (induction nodes arbitrary: m)
  case Nil
  then show ?case by (simp add: set_children_same)
next
  case (Cons node nodes)
  from Cons.prems obtain paraset m1 where
    a: "set_parameter cell_instance node m = Inr (paraset, m1)"
    and b: "set_parameters cell_instance nodes m1 = Inr m'"
    by (auto simp add: bind_def split: sum.splits)
  from set_parameter_children[OF a] obtain cs where "m1 = set_children cs m" ..
  moreover from Cons.IH[OF b] obtain cs' where "m' = set_children cs' m1" ..
  ultimately have "m' = set_children cs' m" by simp
  then show ?case ..
qed

lemma add_or_replace_children_set:
  "add_or_replace_children parent nodes = Inr parent' \<Longrightarrow>
   \<exists>cs. parent' = set_children cs parent"
proof (induction nodes arbitrary: parent)
  case Nil
  then show ?case by (simp add: set_children_same)
next
  case (Cons child rest)
  from Cons.prems obtain p1 where
    a: "add_or_replace_child parent child = Inr p1"
    and b: "add_or_replace_children p1 rest = Inr parent'"
    by (auto simp add: bind_def split: sum.splits)
  from add_or_replace_child_children[OF a] obtain cs where "p1 = set_children cs parent" ..
  moreover from Cons.IH[OF b] obtain cs' where "parent' = set_children cs' p1" ..
  ultimately have "parent' = set_children cs' parent" by simp
  then show ?case ..
qed

lemma instance_entity_clone:
  assumes "instance_entity module_name cell_instance nodes body m = Inr m'"
  shows "\<exists>cs. m' = set_children cs
           (keep_module ((if cell_instance then attr_set ID_whitebox (mkconst_int 1 False 1)
                          else id) (set_str module_name m)))"
proof -
  define m0 where "m0 = (if cell_instance then attr_set ID_whitebox (mkconst_int 1 False 1)
                         else id) (set_str module_name m)"
  have "bind (set_parameters cell_instance nodes m0)
          (\<lambda>m. add_or_replace_children (keep_module m) body) = Inr m'"
    using assms unfolding instance_entity_def m0_def .
  then obtain m1 where
    a: "set_parameters cell_instance nodes m0 = Inr m1"
    and b: "add_or_replace_children (keep_module m1) body = Inr m'"
    by (cases "set_parameters cell_instance nodes m0") (simp_all add: bind_def)
  from set_parameters_children[OF a] obtain cs where m1: "m1 = set_children cs m0" ..
  from add_or_replace_children_set[OF b] obtain cs' where
    m': "m' = set_children cs' (keep_module m1)" ..
  have "keep_module m1 = set_children cs (keep_module m0)"
    unfolding m1 by (rule keep_module_set_children)
  then have "m' = set_children cs' (keep_module m0)"
    unfolding m' by (simp only: set_twice)
  then have "\<exists>cs. m' = set_children cs (keep_module m0)" by (rule exI[of _ cs'])
  then show ?thesis unfolding m0_def .
qed

lemma take_eqI:
  assumes "n \<le> length ys" "length xs = n" "\<forall>q<n. ys ! q = xs ! q"
  shows "take n ys = xs"
  using assms by (intro nth_equalityI) simp_all

text \<open>An instance whose parameter text is not empty and whose derived name is not
  registered: one entity is added to the store and registered under the derived name,
  made from a copy of the generic entity.\<close>

lemma instance_fresh:
  assumes generic: "map_of (shared_top_nodes shared) type_name = Some (Some g)"
    and valid: "g < length (shared_store shared)"
    and ps: "module_parameters_of simplify_parameter shared type_name param_assigns = Inr ps"
    and ne: "ps \<noteq> []"
    and fresh: "map_of (shared_top_nodes shared) (module_name_of sha1 type_name ps) = None"
    and run: "process_module_instance sha1 simplify_parameter type_name name param_assigns
             cell_instance body ports shared = Inr (cell, shared')"
  shows "(\<forall>k. map_of (shared_top_nodes shared') k =
              (if k = module_name_of sha1 type_name ps
               then Some (Some (length (shared_store shared)))
               else map_of (shared_top_nodes shared) k))
       \<and> length (shared_store shared') = Suc (length (shared_store shared))
       \<and> take (length (shared_store shared)) (shared_store shared') = shared_store shared
       \<and> (\<exists>nodes. list_all2 simplified_from param_assigns nodes
              \<and> instance_entity (module_name_of sha1 type_name ps) cell_instance nodes body
                  (shared_store shared ! g)
                = Inr (shared_store shared' ! length (shared_store shared)))
       \<and> (\<exists>cs. shared_store shared' ! length (shared_store shared) =
              set_children cs
                (keep_module
                   ((if cell_instance then attr_set ID_whitebox (mkconst_int 1 False 1) else id)
                      (set_str (module_name_of sha1 type_name ps) (shared_store shared ! g)))))
       \<and> str (hd (children cell)) = module_name_of sha1 type_name ps"
proof -
  let ?name = "module_name_of sha1 type_name ps"
  let ?p = "length (shared_store shared)"
  let ?m = "(if cell_instance then attr_set ID_whitebox (mkconst_int 1 False 1) else id)
              (set_str ?name (shared_store shared ! g))"
  let ?sh0 = "shared\<lparr>shared_top_nodes :=
                   reg_assign (shared_top_nodes shared @ [(?name, None)]) ?name ?p,
                 shared_store := shared_store shared @ [?m]\<rparr>"
  have neq: "?name \<noteq> type_name" using ne by (rule module_name_of_neq_type)
  have fm: "find_module type_name ?name ps cell_instance shared = Inr (?p, cell_instance, ?sh0)"
    using generic valid ne neq fresh by (rule find_module_fresh)
  have reg0: "map_of (shared_top_nodes ?sh0) type_name = Some (Some g)"
    using generic neq by (simp add: map_of_reg_assign)
  have v0: "?p < length (shared_store ?sh0)" by simp
  from process_module_instance_frame[OF run ps fm reg0 v0] obtain nodes m m' where
    ns: "list_all2 simplified_from param_assigns nodes"
    and ts: "set_parameters cell_instance nodes (shared_store ?sh0 ! ?p) = Inr m"
    and body: "add_or_replace_children (keep_module m) body = Inr m'"
    and s: "shared' = assign_node ?p m' ?sh0"
    and c: "str (hd (children cell)) = str (shared_store ?sh0 ! ?p)"
    by blast
  have sm: "str ?m = ?name" by (simp add: attr_set_def)
  have r: "\<forall>k. map_of (shared_top_nodes shared') k =
              (if k = ?name then Some (Some ?p) else map_of (shared_top_nodes shared) k)"
    unfolding s
    by (simp add: assign_node_def map_of_reg_assign map_add_def split: option.splits)
  have l: "length (shared_store shared') = Suc ?p" unfolding s by (simp add: assign_node_def)
  have st: "shared_store shared' = shared_store shared @ [m']"
    unfolding s by (simp add: assign_node_def)
  have t: "take ?p (shared_store shared') = shared_store shared" unfolding st by simp
  have e: "instance_entity ?name cell_instance nodes body (shared_store shared ! g) =
             Inr (shared_store shared' ! ?p)"
    using ts body unfolding st by (simp add: instance_entity_def bind_def)
  have c': "str (hd (children cell)) = ?name" using c sm by simp
  note k = instance_entity_clone[OF e]
  show ?thesis using r l t ns e k c' by blast
qed

text \<open>An instance whose derived name is registered: the entity found is updated in
  place, nothing is added to the store or to the registry.\<close>

lemma instance_found:
  assumes generic: "map_of (shared_top_nodes shared) type_name = Some r"
    and ps: "module_parameters_of simplify_parameter shared type_name param_assigns = Inr ps"
    and found: "map_of (shared_top_nodes shared) (module_name_of sha1 type_name ps) = Some (Some p)"
    and valid: "p < length (shared_store shared)"
    and run: "process_module_instance sha1 simplify_parameter type_name name param_assigns
             cell_instance body ports shared = Inr (cell, shared')"
  shows "shared_top_nodes shared' = shared_top_nodes shared
       \<and> length (shared_store shared') = length (shared_store shared)
       \<and> (\<forall>q. q \<noteq> p \<longrightarrow> shared_store shared' ! q = shared_store shared ! q)
       \<and> (\<exists>nodes. list_all2 simplified_from param_assigns nodes
              \<and> instance_entity (module_name_of sha1 type_name ps) cell_instance nodes body
                  (shared_store shared ! p)
                = Inr (shared_store shared' ! p))
       \<and> str (hd (children cell)) = module_name_of sha1 type_name ps"
proof -
  let ?name = "module_name_of sha1 type_name ps"
  let ?m = "(if cell_instance then attr_set ID_whitebox (mkconst_int 1 False 1) else id)
              (set_str ?name (shared_store shared ! p))"
  let ?sh0 = "shared\<lparr>shared_store := (shared_store shared)[p := ?m]\<rparr>"
  have fm: "find_module type_name ?name ps cell_instance shared = Inr (p, cell_instance, ?sh0)"
    using found valid by (rule find_module_found)
  have reg0: "map_of (shared_top_nodes ?sh0) type_name = Some r"
    using generic by simp
  have v0: "p < length (shared_store ?sh0)" using valid by simp
  from process_module_instance_frame[OF run ps fm reg0 v0] obtain nodes m m' where
    ns: "list_all2 simplified_from param_assigns nodes"
    and ts: "set_parameters cell_instance nodes (shared_store ?sh0 ! p) = Inr m"
    and body: "add_or_replace_children (keep_module m) body = Inr m'"
    and s: "shared' = assign_node p m' ?sh0"
    and c: "str (hd (children cell)) = str (shared_store ?sh0 ! p)"
    by blast
  have sm: "str ?m = ?name" by (simp add: attr_set_def)
  have e: "instance_entity ?name cell_instance nodes body (shared_store shared ! p) =
             Inr (shared_store shared' ! p)"
    using ts body valid unfolding s by (simp add: instance_entity_def bind_def assign_node_def)
  have c': "str (hd (children cell)) = ?name" using c sm valid by simp
  show ?thesis using ns e c' valid unfolding s by (auto simp add: assign_node_def)
qed





end
